theory Spec2Isabelle
  imports Main "HOL-Library.Sublist"
begin

section \<open>Python strings\<close>

text \<open>
  The program (\<^verbatim>\<open>pdf_parse.py\<close>) works on Python \<^verbatim>\<open>str\<close> values. A \<^typ>\<open>string\<close> stands
  for a text whose code points all lie below 256, one \<^typ>\<open>char\<close> per code point; the
  character classes below are Python's, restricted to that range.
\<close>

definition is_space :: "char \<Rightarrow> bool" where
  \<comment> \<open>\<^verbatim>\<open>str.isspace\<close> on one character; also the class \<^verbatim>\<open>\s\<close> of \<^verbatim>\<open>re\<close>\<close>
  "is_space c = (c \<in> set [CHR 0x09, CHR 0x0A, CHR 0x0B, CHR 0x0C, CHR 0x0D,
      CHR 0x1C, CHR 0x1D, CHR 0x1E, CHR 0x1F, CHR 0x20, CHR 0x85, CHR 0xA0])"

definition is_linebreak :: "char \<Rightarrow> bool" where
  \<comment> \<open>the line boundaries of \<^verbatim>\<open>str.splitlines\<close>\<close>
  "is_linebreak c = (c \<in> set [CHR 0x0A, CHR 0x0B, CHR 0x0C, CHR 0x0D,
      CHR 0x1C, CHR 0x1D, CHR 0x1E, CHR 0x85])"

definition is_digit :: "char \<Rightarrow> bool" where
  \<comment> \<open>the class \<^verbatim>\<open>\d\<close>\<close>
  "is_digit c = (c \<in> set ''0123456789'')"

definition is_word :: "char \<Rightarrow> bool" where
  \<comment> \<open>the class \<^verbatim>\<open>\w\<close>: alphanumeric (\<^verbatim>\<open>str.isalnum\<close>) or underscore\<close>
  "is_word c = (let n = (of_char c :: nat) in
     (48 \<le> n \<and> n \<le> 57) \<or> (65 \<le> n \<and> n \<le> 90) \<or> n = 95 \<or> (97 \<le> n \<and> n \<le> 122) \<or>
     n = 170 \<or> n = 178 \<or> n = 179 \<or> n = 181 \<or> n = 185 \<or> n = 186 \<or>
     (188 \<le> n \<and> n \<le> 190) \<or> (192 \<le> n \<and> n \<le> 214) \<or> (216 \<le> n \<and> n \<le> 246) \<or>
     (248 \<le> n \<and> n \<le> 255))"

definition not_newline :: "char \<Rightarrow> bool" where
  \<comment> \<open>the class \<^verbatim>\<open>[^\n]\<close>, and \<^verbatim>\<open>.\<close> without the flag DOTALL\<close>
  "not_newline c = (c \<noteq> CHR 0x0A)"

definition any_char :: "char \<Rightarrow> bool" where
  \<comment> \<open>\<^verbatim>\<open>.\<close> under the flag DOTALL\<close>
  "any_char c = True"

definition is_digit_or_dot :: "char \<Rightarrow> bool" where
  \<comment> \<open>the class \<^verbatim>\<open>[\d.]\<close>\<close>
  "is_digit_or_dot c = (is_digit c \<or> c = CHR ''.'')"

definition is_digit_or_hyphen :: "char \<Rightarrow> bool" where
  \<comment> \<open>the class \<^verbatim>\<open>[0-9\-]\<close>\<close>
  "is_digit_or_hyphen c = (c \<in> set ''0123456789-'')"

definition lower :: "char \<Rightarrow> char" where
  \<comment> \<open>lower case of one character\<close>
  "lower c = (let n = (of_char c :: nat) in
     if (65 \<le> n \<and> n \<le> 90) \<or> (192 \<le> n \<and> n \<le> 222 \<and> n \<noteq> 215) then char_of (n + 32) else c)"

definition strip :: "string \<Rightarrow> string" where
  \<comment> \<open>\<^verbatim>\<open>s.strip()\<close>\<close>
  "strip s = rev (dropWhile is_space (rev (dropWhile is_space s)))"

fun splitlines_acc :: "string \<Rightarrow> string \<Rightarrow> string list" where
  \<comment> \<open>the first argument holds the current line, reversed\<close>
  "splitlines_acc acc [] = (if acc = [] then [] else [rev acc])"
| "splitlines_acc acc (c # cs) =
     (if c = CHR 0x0D then
        (case cs of
           [] \<Rightarrow> [rev acc]
         | c' # cs' \<Rightarrow> if c' = CHR 0x0A then rev acc # splitlines_acc [] cs'
                      else rev acc # splitlines_acc [] (c' # cs'))
      else if is_linebreak c then rev acc # splitlines_acc [] cs
      else splitlines_acc (c # acc) cs)"

definition splitlines :: "string \<Rightarrow> string list" where
  \<comment> \<open>\<^verbatim>\<open>text.splitlines()\<close>\<close>
  "splitlines text = splitlines_acc [] text"

fun contains :: "string \<Rightarrow> string \<Rightarrow> bool" where
  \<comment> \<open>\<^verbatim>\<open>sub in s\<close>\<close>
  "contains sub [] = (sub = [])"
| "contains sub (c # cs) = (prefix sub (c # cs) \<or> contains sub cs)"

definition startswith :: "string \<Rightarrow> string \<Rightarrow> bool" where
  \<comment> \<open>\<^verbatim>\<open>s.startswith(p)\<close>\<close>
  "startswith s p = prefix p s"

fun join :: "string \<Rightarrow> string list \<Rightarrow> string" where
  \<comment> \<open>\<^verbatim>\<open>sep.join(xs)\<close>\<close>
  "join sep [] = []"
| "join sep [x] = x"
| "join sep (x # y # ys) = x @ sep @ join sep (y # ys)"

section \<open>Errors\<close>

datatype error = IndexError | ValueError | AttributeError | TypeError

definition bind :: "error + 'a \<Rightarrow> ('a \<Rightarrow> error + 'b) \<Rightarrow> error + 'b" where
  "bind x f = (case x of Inl e \<Rightarrow> Inl e | Inr v \<Rightarrow> f v)"

definition py_index :: "'a list \<Rightarrow> nat \<Rightarrow> error + 'a" where
  \<comment> \<open>\<^verbatim>\<open>xs[i]\<close> for a non-negative index\<close>
  "py_index xs i = (if i < length xs then Inr (xs ! i) else Inl IndexError)"

section \<open>Regular expressions\<close>

text \<open>
  The fragment of Python's \<^verbatim>\<open>re\<close> that the program's patterns use: literals, character
  classes, repetition of a class (greedy or lazy, with a lower bound), sequence,
  alternation and numbered groups. The matcher backtracks as \<^verbatim>\<open>re\<close> does: each function
  takes the rest of the pattern as a continuation \<open>k\<close>, tries its alternatives in the
  order of the backtracking matcher, and returns the first result that the
  continuation accepts.
\<close>

datatype regex =
    Lit string
  | One "char \<Rightarrow> bool"
  | Rep bool nat "char \<Rightarrow> bool"
  | Seq regex regex
  | Alt regex regex
  | Grp nat regex

abbreviation many0 :: "(char \<Rightarrow> bool) \<Rightarrow> regex" where
  \<comment> \<open>\<^verbatim>\<open>X*\<close>\<close>
  "many0 P \<equiv> Rep True 0 P"

abbreviation many1 :: "(char \<Rightarrow> bool) \<Rightarrow> regex" where
  \<comment> \<open>\<^verbatim>\<open>X+\<close>\<close>
  "many1 P \<equiv> Rep True (Suc 0) P"

abbreviation lazy0 :: "(char \<Rightarrow> bool) \<Rightarrow> regex" where
  \<comment> \<open>\<^verbatim>\<open>X*?\<close>\<close>
  "lazy0 P \<equiv> Rep False 0 P"

abbreviation lazy1 :: "(char \<Rightarrow> bool) \<Rightarrow> regex" where
  \<comment> \<open>\<^verbatim>\<open>X+?\<close>\<close>
  "lazy1 P \<equiv> Rep False (Suc 0) P"

fun seqs :: "regex list \<Rightarrow> regex" where
  "seqs [] = Lit []"
| "seqs [r] = r"
| "seqs (r # rs) = Seq r (seqs rs)"

type_synonym groups = "nat \<Rightarrow> string option"

definition no_groups :: groups where
  "no_groups = (\<lambda>k. None)"

definition chr_eq :: "bool \<Rightarrow> char \<Rightarrow> char \<Rightarrow> bool" where
  \<comment> \<open>a pattern character against a subject character; the flag is IGNORECASE\<close>
  "chr_eq ic p c = (if ic then lower c = lower p else c = p)"

fun lit_match :: "bool \<Rightarrow> string \<Rightarrow> string \<Rightarrow> string option" where
  \<comment> \<open>the subject after the literal, if it starts with it\<close>
  "lit_match ic [] s = Some s"
| "lit_match ic (p # ps) [] = None"
| "lit_match ic (p # ps) (c # cs) = (if chr_eq ic p c then lit_match ic ps cs else None)"

fun rep :: "bool \<Rightarrow> nat \<Rightarrow> (char \<Rightarrow> bool) \<Rightarrow> string \<Rightarrow> (string \<Rightarrow> 'a option) \<Rightarrow> 'a option" where
  \<comment> \<open>at least \<open>n\<close> characters of the class; a greedy repetition first tries to go on,
      a lazy one first tries to stop\<close>
  "rep greedy (Suc n) P [] k = None"
| "rep greedy (Suc n) P (c # cs) k = (if P c then rep greedy n P cs k else None)"
| "rep greedy 0 P [] k = k []"
| "rep greedy 0 P (c # cs) k =
     (if greedy then
        (case (if P c then rep greedy 0 P cs k else None) of
           None \<Rightarrow> k (c # cs)
         | Some v \<Rightarrow> Some v)
      else
        (case k (c # cs) of
           None \<Rightarrow> (if P c then rep greedy 0 P cs k else None)
         | Some v \<Rightarrow> Some v))"

fun ms :: "bool \<Rightarrow> regex \<Rightarrow> string \<Rightarrow> groups \<Rightarrow> (string \<Rightarrow> groups \<Rightarrow> 'a option) \<Rightarrow> 'a option" where
  "ms ic (Lit l) s g k = (case lit_match ic l s of None \<Rightarrow> None | Some s' \<Rightarrow> k s' g)"
| "ms ic (One P) s g k = (case s of [] \<Rightarrow> None | c # cs \<Rightarrow> if P c then k cs g else None)"
| "ms ic (Rep greedy n P) s g k = rep greedy n P s (\<lambda>s'. k s' g)"
| "ms ic (Seq a b) s g k = ms ic a s g (\<lambda>s' g'. ms ic b s' g' k)"
| "ms ic (Alt a b) s g k = (case ms ic a s g k of None \<Rightarrow> ms ic b s g k | Some v \<Rightarrow> Some v)"
| "ms ic (Grp n a) s g k =
     ms ic a s g (\<lambda>s' g'. k s' (g'(n \<mapsto> take (length s - length s') s)))"

definition re_match :: "bool \<Rightarrow> regex \<Rightarrow> string \<Rightarrow> groups option" where
  \<comment> \<open>\<^verbatim>\<open>re.match(pattern, s)\<close>: the groups of the match at the start of \<open>s\<close>\<close>
  "re_match ic r s = ms ic r s no_groups (\<lambda>s' g. Some g)"

fun re_search :: "bool \<Rightarrow> regex \<Rightarrow> string \<Rightarrow> groups option" where
  \<comment> \<open>\<^verbatim>\<open>re.search(pattern, s)\<close>: the groups of the leftmost match\<close>
  "re_search ic r [] = re_match ic r []"
| "re_search ic r (c # cs) =
     (case re_match ic r (c # cs) of None \<Rightarrow> re_search ic r cs | Some g \<Rightarrow> Some g)"

definition group_strip :: "groups \<Rightarrow> nat \<Rightarrow> error + string" where
  \<comment> \<open>\<^verbatim>\<open>m.group(k).strip()\<close>: a group that took no part in the match is \<^verbatim>\<open>None\<close>\<close>
  "group_strip m k = (case m k of None \<Rightarrow> Inl AttributeError | Some v \<Rightarrow> Inr (strip v))"

section \<open>Dates\<close>

text \<open>
  \<^verbatim>\<open>datetime.strptime(raw_date, "%m/%d/%Y")\<close> followed by \<^verbatim>\<open>strftime("%Y-%m-%d")\<close>.
  The library turns the format into the regular expression below, requires the match
  to cover the whole token, converts the three groups with \<^verbatim>\<open>int\<close> and builds a date,
  which raises \<^verbatim>\<open>ValueError\<close> outside the calendar. \<^verbatim>\<open>%m\<close> and \<^verbatim>\<open>%d\<close> print with a
  leading zero to two digits. \<^verbatim>\<open>%Y\<close> is printed by the C library, which writes the year in
  decimal without leading zeros: four digits from the year 1000 on, fewer below
  (\<^verbatim>\<open>999-01-01\<close>).
\<close>

record date =
  year :: nat
  month :: nat
  day :: nat

definition one_of :: "string \<Rightarrow> char \<Rightarrow> bool" where
  "one_of cs c = (c \<in> set cs)"

definition strptime_pattern :: regex where
  \<comment> \<open>\<^verbatim>\<open>(?P<m>1[0-2]|0[1-9]|[1-9])/(?P<d>3[0-1]|[1-2]\d|0[1-9]|[1-9]| [1-9])/(?P<Y>\d\d\d\d)\<close>,
      with the groups m, d, Y numbered 1, 2, 3\<close>
  "strptime_pattern = seqs [
     Grp 1 (Alt (Seq (Lit ''1'') (One (one_of ''012'')))
           (Alt (Seq (Lit ''0'') (One (one_of ''123456789'')))
                (One (one_of ''123456789'')))),
     Lit ''/'',
     Grp 2 (Alt (Seq (Lit ''3'') (One (one_of ''01'')))
           (Alt (Seq (One (one_of ''12'')) (One is_digit))
           (Alt (Seq (Lit ''0'') (One (one_of ''123456789'')))
           (Alt (One (one_of ''123456789''))
                (Seq (Lit '' '') (One (one_of ''123456789''))))))),
     Lit ''/'',
     Grp 3 (seqs [One is_digit, One is_digit, One is_digit, One is_digit])]"

definition digit_val :: "char \<Rightarrow> nat" where
  "digit_val c = of_char c - 48"

definition int_of :: "string \<Rightarrow> nat" where
  \<comment> \<open>\<^verbatim>\<open>int(s)\<close> on a string of digits, blanks around it ignored\<close>
  "int_of s = foldl (\<lambda>a c. 10 * a + digit_val c) 0 (strip s)"

definition is_leap :: "nat \<Rightarrow> bool" where
  "is_leap y = (y mod 4 = 0 \<and> (y mod 100 \<noteq> 0 \<or> y mod 400 = 0))"

definition days_in_month :: "nat \<Rightarrow> nat \<Rightarrow> nat" where
  "days_in_month y m =
     (if m = 2 then (if is_leap y then 29 else 28)
      else if m = 4 \<or> m = 6 \<or> m = 9 \<or> m = 11 then 30 else 31)"

definition valid_date :: "nat \<Rightarrow> nat \<Rightarrow> nat \<Rightarrow> bool" where
  \<comment> \<open>the range check of the \<^verbatim>\<open>datetime\<close> constructor\<close>
  "valid_date y m d =
     (1 \<le> y \<and> y \<le> 9999 \<and> 1 \<le> m \<and> m \<le> 12 \<and> 1 \<le> d \<and> d \<le> days_in_month y m)"

definition strptime :: "string \<Rightarrow> error + date" where
  \<comment> \<open>\<^verbatim>\<open>datetime.strptime(s, "%m/%d/%Y")\<close>\<close>
  "strptime s =
     (case ms True strptime_pattern s no_groups (\<lambda>s' g. Some (s', g)) of
        None \<Rightarrow> Inl ValueError
      | Some found \<Rightarrow>
          if fst found \<noteq> [] then Inl ValueError
          else (case (snd found 1, snd found 2, snd found 3) of
                  (Some m, Some d, Some y) \<Rightarrow>
                    if valid_date (int_of y) (int_of m) (int_of d)
                    then Inr \<lparr>year = int_of y, month = int_of m, day = int_of d\<rparr>
                    else Inl ValueError
                | _ \<Rightarrow> Inl ValueError))"

definition digit_chr :: "nat \<Rightarrow> char" where
  "digit_chr n = ''0123456789'' ! (n mod 10)"

definition pad2 :: "nat \<Rightarrow> string" where
  "pad2 n = [digit_chr (n div 10), digit_chr n]"

definition year_str :: "nat \<Rightarrow> string" where
  \<comment> \<open>\<^verbatim>\<open>%Y\<close>: the year in decimal, without leading zeros; the years of a date are 1 to 9999\<close>
  "year_str y =
     (if y < 10 then [digit_chr y]
      else if y < 100 then [digit_chr (y div 10), digit_chr y]
      else if y < 1000 then [digit_chr (y div 100), digit_chr (y div 10), digit_chr y]
      else [digit_chr (y div 1000), digit_chr (y div 100), digit_chr (y div 10), digit_chr y])"

definition strftime :: "date \<Rightarrow> string" where
  \<comment> \<open>\<^verbatim>\<open>date_obj.strftime("%Y-%m-%d")\<close>\<close>
  "strftime dt = year_str (year dt) @ ''-'' @ pad2 (month dt) @ ''-'' @ pad2 (day dt)"

section \<open>Well information\<close>

record well_data =
  operator :: "string option"
  api_number :: "string option"
  well_name :: "string option"
  enseco_job_number :: "string option"
  job_type :: "string option"
  county_state :: "string option"
  well_shl :: "string option"
  latitude :: "string option"
  longitude :: "string option"
  datum :: "string option"

definition section_pattern :: regex where
  \<comment> \<open>\<^verbatim>\<open>(?:Well Information|WELL DATA SUMMARY)(.*)\<close>, with DOTALL\<close>
  "section_pattern =
     Seq (Alt (Lit ''Well Information'') (Lit ''WELL DATA SUMMARY'')) (Grp 1 (many0 any_char))"

definition operator_pattern :: regex where
  \<comment> \<open>\<^verbatim>\<open>Operator:\s*(.+?)\s+API\<close>\<close>
  "operator_pattern =
     seqs [Lit ''Operator:'', many0 is_space, Grp 1 (lazy1 not_newline), many1 is_space,
           Lit ''API'']"

definition api_pattern :: regex where
  \<comment> \<open>\<^verbatim>\<open>API\s*#:\s*([0-9\-]+)\<close>\<close>
  "api_pattern =
     seqs [Lit ''API'', many0 is_space, Lit ''#:'', many0 is_space,
           Grp 1 (many1 is_digit_or_hyphen)]"

definition well_name_pattern :: regex where
  \<comment> \<open>\<^verbatim>\<open>Well Name:\s*([^\n]+)\<close>\<close>
  "well_name_pattern = seqs [Lit ''Well Name:'', many0 is_space, Grp 1 (many1 not_newline)]"

definition enseco_job_pattern :: regex where
  \<comment> \<open>\<^verbatim>\<open>Enseco\s*Job\s*#:\s*([^\n]+)\<close>\<close>
  "enseco_job_pattern =
     seqs [Lit ''Enseco'', many0 is_space, Lit ''Job'', many0 is_space, Lit ''#:'',
           many0 is_space, Grp 1 (many1 not_newline)]"

definition job_type_pattern :: regex where
  \<comment> \<open>\<^verbatim>\<open>Well\s*Type:\s*([^\n]+)\<close>\<close>
  "job_type_pattern =
     seqs [Lit ''Well'', many0 is_space, Lit ''Type:'', many0 is_space,
           Grp 1 (many1 not_newline)]"

definition county_state_pattern :: regex where
  \<comment> \<open>\<^verbatim>\<open>County,\s*State:\s*([^\n]+)\<close>\<close>
  "county_state_pattern =
     seqs [Lit ''County,'', many0 is_space, Lit ''State:'', many0 is_space,
           Grp 1 (many1 not_newline)]"

definition shl_pattern :: regex where
  \<comment> \<open>\<^verbatim>\<open>Surface Location:\s*([^\n]+)\<close>\<close>
  "shl_pattern = seqs [Lit ''Surface Location:'', many0 is_space, Grp 1 (many1 not_newline)]"

definition latitude_pattern :: regex where
  \<comment> \<open>\<^verbatim>\<open>Latitude:\s*([^\n]+)\<close>\<close>
  "latitude_pattern = seqs [Lit ''Latitude:'', many0 is_space, Grp 1 (many1 not_newline)]"

definition longitude_pattern :: regex where
  \<comment> \<open>\<^verbatim>\<open>Longitude:\s*([^\n]+)\<close>\<close>
  "longitude_pattern = seqs [Lit ''Longitude:'', many0 is_space, Grp 1 (many1 not_newline)]"

definition datum_pattern :: regex where
  \<comment> \<open>\<^verbatim>\<open>Datum:\s*([^\n]+)\<close>\<close>
  "datum_pattern = seqs [Lit ''Datum:'', many0 is_space, Grp 1 (many1 not_newline)]"

definition section_text :: "string \<Rightarrow> string option" where
  \<comment> \<open>the text after the section header: \<^verbatim>\<open>section_match.group(1)\<close>, or the whole text\<close>
  "section_text text =
     (case re_search True section_pattern text of
        Some section_match \<Rightarrow> section_match 1
      | None \<Rightarrow> Some text)"

definition empty_well :: well_data where
  "empty_well = \<lparr>operator = None, api_number = None, well_name = None,
     enseco_job_number = None, job_type = None, county_state = None, well_shl = None,
     latitude = None, longitude = None, datum = None\<rparr>"

definition match_and_set ::
  "string option \<Rightarrow> regex \<Rightarrow> ((string option \<Rightarrow> string option) \<Rightarrow> well_data \<Rightarrow> well_data) \<Rightarrow>
   well_data \<Rightarrow> error + well_data" where
  \<comment> \<open>the key is given as the update of its field; searching \<^verbatim>\<open>None\<close> raises \<^verbatim>\<open>TypeError\<close>\<close>
  "match_and_set sect pattern key wd =
     (case sect of
        None \<Rightarrow> Inl TypeError
      | Some s \<Rightarrow>
          (case re_search True pattern s of
             None \<Rightarrow> Inr wd
           | Some m \<Rightarrow> bind (group_strip m 1) (\<lambda>v. Inr (key (\<lambda>_. Some v) wd))))"

definition parse_well_info :: "string \<Rightarrow> error + well_data" where
  "parse_well_info text =
     (let sect = section_text text in
      bind (match_and_set sect operator_pattern operator_update empty_well) (\<lambda>w1.
      bind (match_and_set sect api_pattern api_number_update w1) (\<lambda>w2.
      bind (match_and_set sect well_name_pattern well_name_update w2) (\<lambda>w3.
      bind (match_and_set sect enseco_job_pattern enseco_job_number_update w3) (\<lambda>w4.
      bind (match_and_set sect job_type_pattern job_type_update w4) (\<lambda>w5.
      bind (match_and_set sect county_state_pattern county_state_update w5) (\<lambda>w6.
      bind (match_and_set sect shl_pattern well_shl_update w6) (\<lambda>w7.
      bind (match_and_set sect latitude_pattern latitude_update w7) (\<lambda>w8.
      bind (match_and_set sect longitude_pattern longitude_update w8) (\<lambda>w9.
      match_and_set sect datum_pattern datum_update w9))))))))))"

section \<open>Stimulation data\<close>

record stim_data =
  date_stimulated :: "string option"
  stimulated_formation :: "string option"
  type_treatment :: "string option"
  top_depth :: "string option"
  bottom_depth :: "string option"
  stimulation_stages :: "string option"
  volume :: "string option"
  volume_units :: "string option"
  acid_percent :: "string option"
  lbs_proppant :: "string option"
  max_treatment_pressure :: "string option"
  max_treatment_rate :: "string option"
  proppant_details :: "string option"

definition empty_stim :: stim_data where
  "empty_stim = \<lparr>date_stimulated = None, stimulated_formation = None, type_treatment = None,
     top_depth = None, bottom_depth = None, stimulation_stages = None, volume = None,
     volume_units = None, acid_percent = None, lbs_proppant = None,
     max_treatment_pressure = None, max_treatment_rate = None, proppant_details = None\<rparr>"

definition date_line_pattern :: regex where
  \<comment> \<open>\<^verbatim>\<open>(\d{2}/\d{2}/\d{4})\s+(.*?)\s+(\d+)\s+(\d+)\s+(\d+)\s+I\s+(\d+)\s+(\w+)\<close>\<close>
  "date_line_pattern =
     seqs [Grp 1 (seqs [One is_digit, One is_digit, Lit ''/'', One is_digit, One is_digit,
                        Lit ''/'', One is_digit, One is_digit, One is_digit, One is_digit]),
           many1 is_space, Grp 2 (lazy0 not_newline),
           many1 is_space, Grp 3 (many1 is_digit),
           many1 is_space, Grp 4 (many1 is_digit),
           many1 is_space, Grp 5 (many1 is_digit),
           many1 is_space, Lit ''I'',
           many1 is_space, Grp 6 (many1 is_digit),
           many1 is_space, Grp 7 (many1 is_word)]"

definition treatment_line_pattern :: regex where
  \<comment> \<open>\<^verbatim>\<open>(.+?)\s+(\d+)\s+(\d+)\s+([\d.]+)\<close>\<close>
  "treatment_line_pattern =
     seqs [Grp 1 (lazy1 not_newline),
           many1 is_space, Grp 2 (many1 is_digit),
           many1 is_space, Grp 3 (many1 is_digit),
           many1 is_space, Grp 4 (many1 is_digit_or_dot)]"

definition normalize_date :: "groups \<Rightarrow> string option" where
  \<comment> \<open>the \<^verbatim>\<open>try\<close> block: whatever is raised inside it leaves the date unset\<close>
  "normalize_date m =
     (case bind (group_strip m 1) strptime of
        Inl e \<Rightarrow> None
      | Inr date_obj \<Rightarrow> Some (strftime date_obj))"

definition set_date_fields :: "string \<Rightarrow> stim_data \<Rightarrow> error + stim_data" where
  \<comment> \<open>from \<^verbatim>\<open>m = re.match(...)\<close> to the assignment of \<^verbatim>\<open>volume_units\<close>\<close>
  "set_date_fields next_line d =
     (case re_match False date_line_pattern next_line of
        None \<Rightarrow> Inr d
      | Some m \<Rightarrow>
          let d1 = d\<lparr>date_stimulated := normalize_date m\<rparr> in
          bind (group_strip m 2) (\<lambda>v2.
          bind (group_strip m 3) (\<lambda>v3.
          bind (group_strip m 4) (\<lambda>v4.
          bind (group_strip m 5) (\<lambda>v5.
          bind (group_strip m 6) (\<lambda>v6.
          bind (group_strip m 7) (\<lambda>v7.
            Inr (d1\<lparr>stimulated_formation := Some v2, top_depth := Some v3,
                   bottom_depth := Some v4, stimulation_stages := Some v5,
                   volume := Some v6, volume_units := Some v7\<rparr>))))))))"

definition date_block :: "string list \<Rightarrow> nat \<Rightarrow> stim_data \<Rightarrow> error + stim_data" where
  \<comment> \<open>the body of \<^verbatim>\<open>if "Date Stimulated" in line_stripped\<close>\<close>
  "date_block lines i d =
     (if i + 1 < length lines then
        bind (py_index lines (i + 1)) (\<lambda>l. set_date_fields (strip l) d)
      else Inr d)"

definition set_treatment_fields :: "string \<Rightarrow> stim_data \<Rightarrow> error + stim_data" where
  \<comment> \<open>from \<^verbatim>\<open>m = re.match(...)\<close> to the assignment of \<^verbatim>\<open>max_treatment_rate\<close>\<close>
  "set_treatment_fields next_line d =
     (case re_match False treatment_line_pattern next_line of
        None \<Rightarrow> Inr d
      | Some m \<Rightarrow>
          bind (group_strip m 1) (\<lambda>v1.
          bind (group_strip m 2) (\<lambda>v2.
          bind (group_strip m 3) (\<lambda>v3.
          bind (group_strip m 4) (\<lambda>v4.
            Inr (d\<lparr>type_treatment := Some v1, lbs_proppant := Some v2,
                  max_treatment_pressure := Some v3,
                  max_treatment_rate := Some v4\<rparr>))))))"

definition treatment_block :: "string list \<Rightarrow> nat \<Rightarrow> stim_data \<Rightarrow> error + stim_data" where
  \<comment> \<open>the body of \<^verbatim>\<open>if "Type Treatment" in line_stripped\<close>\<close>
  "treatment_block lines i d =
     (if i + 1 < length lines then
        bind (py_index lines (i + 1)) (\<lambda>l. set_treatment_fields (strip l) d)
      else Inr d)"

fun details_lines :: "string list \<Rightarrow> string list" where
  \<comment> \<open>the inner loop, over \<^verbatim>\<open>lines[i+1:]\<close>: it stops at an empty line or a new header\<close>
  "details_lines [] = []"
| "details_lines (x # xs) =
     (let l = strip x in
      if l = [] \<or> startswith l ''Date Stimulated'' \<or> startswith l ''Type Treatment'' then []
      else l # details_lines xs)"

definition details_block :: "string list \<Rightarrow> nat \<Rightarrow> stim_data \<Rightarrow> stim_data" where
  \<comment> \<open>the body of \<^verbatim>\<open>if "Details" in line_stripped\<close>, up to its \<^verbatim>\<open>break\<close>\<close>
  "details_block lines i d =
     (let ds = details_lines (drop (i + 1) lines) in
      if ds \<noteq> [] then d\<lparr>proppant_details := Some (join [CHR 0x0A] ds)\<rparr> else d)"

fun scan :: "string list \<Rightarrow> nat \<Rightarrow> string list \<Rightarrow> stim_data \<Rightarrow> error + stim_data" where
  \<comment> \<open>\<^verbatim>\<open>for i, line in enumerate(lines)\<close>: the third argument is what is left to enumerate\<close>
  "scan lines i [] d = Inr d"
| "scan lines i (line # rest) d =
     (let line_stripped = strip line in
      bind (if contains ''Date Stimulated'' line_stripped then date_block lines i d
            else Inr d) (\<lambda>d1.
      bind (if contains ''Type Treatment'' line_stripped then treatment_block lines i d1
            else Inr d1) (\<lambda>d2.
      if contains ''Details'' line_stripped then Inr (details_block lines i d2)
      else scan lines (i + 1) rest d2)))"

definition parse_stimulation_data :: "string \<Rightarrow> error + stim_data" where
  "parse_stimulation_data text = (let lines = splitlines text in scan lines 0 lines empty_stim)"

section \<open>The main loop, for one document\<close>

text \<open>
  The persistence collaborator is the list of the calls it receives. \<open>well_info_id\<close> is
  the row identifier that \<^verbatim>\<open>insert_well_info\<close> returns.
\<close>

datatype db_call =
    Insert_well_info well_data
  | Insert_stimulation_data stim_data nat

definition truthy :: "string option \<Rightarrow> bool" where
  \<comment> \<open>the truth value of a field: \<^verbatim>\<open>None\<close> and the empty string are false\<close>
  "truthy v = (case v of None \<Rightarrow> False | Some s \<Rightarrow> s \<noteq> [])"

definition process_text :: "nat \<Rightarrow> string \<Rightarrow> db_call list \<Rightarrow> db_call list \<times> error option" where
  \<comment> \<open>steps 4 to 7 of \<^verbatim>\<open>main\<close> on the text of one document\<close>
  "process_text well_info_id text_content db =
     (case parse_well_info text_content of
        Inl e \<Rightarrow> (db, Some e)
      | Inr well_info \<Rightarrow>
          let db1 = db @ [Insert_well_info well_info] in
          (case parse_stimulation_data text_content of
             Inl e \<Rightarrow> (db1, Some e)
           | Inr stim \<Rightarrow>
               if truthy (date_stimulated stim) \<or> truthy (stimulated_formation stim)
               then (db1 @ [Insert_stimulation_data stim well_info_id], None)
               else (db1, None)))"

section \<open>Auxiliary definitions for the proofs\<close>

fun must :: "regex \<Rightarrow> nat set" where
  \<comment> \<open>the groups that every match of the pattern sets\<close>
  "must (Lit l) = {}"
| "must (One P) = {}"
| "must (Rep greedy n P) = {}"
| "must (Seq a b) = must a \<union> must b"
| "must (Alt a b) = must a \<inter> must b"
| "must (Grp n a) = insert n (must a)"

definition date_fields :: "string \<Rightarrow> stim_data \<Rightarrow> stim_data" where
  \<comment> \<open>what \<open>set_date_fields\<close> returns (lemma \<open>set_date_fields_eq\<close>)\<close>
  "date_fields next_line d =
     (case re_match False date_line_pattern next_line of
        None \<Rightarrow> d
      | Some m \<Rightarrow> d\<lparr>date_stimulated := normalize_date m,
            stimulated_formation := map_option strip (m 2),
            top_depth := map_option strip (m 3), bottom_depth := map_option strip (m 4),
            stimulation_stages := map_option strip (m 5), volume := map_option strip (m 6),
            volume_units := map_option strip (m 7)\<rparr>)"

definition treatment_fields :: "string \<Rightarrow> stim_data \<Rightarrow> stim_data" where
  \<comment> \<open>what \<open>set_treatment_fields\<close> returns (lemma \<open>set_treatment_fields_eq\<close>)\<close>
  "treatment_fields next_line d =
     (case re_match False treatment_line_pattern next_line of
        None \<Rightarrow> d
      | Some m \<Rightarrow> d\<lparr>type_treatment := map_option strip (m 1),
            lbs_proppant := map_option strip (m 2),
            max_treatment_pressure := map_option strip (m 3),
            max_treatment_rate := map_option strip (m 4)\<rparr>)"

definition line_fields :: "string \<Rightarrow> string list \<Rightarrow> stim_data \<Rightarrow> stim_data" where
  \<comment> \<open>the two marker blocks of one line, given the lines that follow it\<close>
  "line_fields line rest d =
     (let d1 = (if contains ''Date Stimulated'' (strip line)
                then (case rest of [] \<Rightarrow> d | l # _ \<Rightarrow> date_fields (strip l) d) else d)
      in if contains ''Type Treatment'' (strip line)
         then (case rest of [] \<Rightarrow> d1 | l # _ \<Rightarrow> treatment_fields (strip l) d1) else d1)"

definition details_upd :: "string list \<Rightarrow> stim_data \<Rightarrow> stim_data" where
  \<comment> \<open>the details block, given the lines that follow the marker line\<close>
  "details_upd rest d =
     (if details_lines rest \<noteq> [] then d\<lparr>proppant_details := Some (join [CHR 0x0A] (details_lines rest))\<rparr>
      else d)"

fun run :: "string list \<Rightarrow> stim_data \<Rightarrow> stim_data" where
  \<comment> \<open>what \<open>scan\<close> returns, as a function of the lines left (lemma \<open>scan_run\<close>)\<close>
  "run [] d = d"
| "run (line # rest) d =
     (if contains ''Details'' (strip line) then details_upd rest (line_fields line rest d)
      else run rest (line_fields line rest d))"

definition date_part :: "stim_data \<Rightarrow> string option list" where
  "date_part d = [date_stimulated d, stimulated_formation d, top_depth d, bottom_depth d,
     stimulation_stages d, volume d, volume_units d]"

definition treatment_part :: "stim_data \<Rightarrow> string option list" where
  "treatment_part d = [type_treatment d, lbs_proppant d, max_treatment_pressure d,
     max_treatment_rate d]"

definition ci_eq :: "string \<Rightarrow> string \<Rightarrow> bool" where
  \<comment> \<open>equal up to the case of the letters\<close>
  "ci_eq a b = (map lower a = map lower b)"

definition ci_at :: "string \<Rightarrow> string \<Rightarrow> nat \<Rightarrow> bool" where
  \<comment> \<open>\<open>h\<close> occurs in \<open>t\<close> at position \<open>i\<close>, up to the case of the letters\<close>
  "ci_at h t i = ci_eq (take (length h) (drop i t)) h"

definition header_at :: "string \<Rightarrow> nat \<Rightarrow> bool" where
  \<comment> \<open>one of the two section headers occurs in \<open>t\<close> at position \<open>i\<close>\<close>
  "header_at t i = (ci_at ''Well Information'' t i \<or> ci_at ''WELL DATA SUMMARY'' t i)"

definition field :: "regex \<Rightarrow> string \<Rightarrow> string option" where
  \<comment> \<open>the value that \<open>match_and_set\<close> stores for a pattern, if any\<close>
  "field pat s =
     (case re_search True pat s of None \<Rightarrow> None | Some m \<Rightarrow> map_option strip (m 1))"

definition well_fields :: "string \<Rightarrow> well_data" where
  \<comment> \<open>what \<open>parse_well_info\<close> returns, as a function of the section text\<close>
  "well_fields s = \<lparr>operator = field operator_pattern s, api_number = field api_pattern s,
     well_name = field well_name_pattern s,
     enseco_job_number = field enseco_job_pattern s, job_type = field job_type_pattern s,
     county_state = field county_state_pattern s, well_shl = field shl_pattern s,
     latitude = field latitude_pattern s, longitude = field longitude_pattern s,
     datum = field datum_pattern s\<rparr>"

fun needs :: "char \<Rightarrow> regex \<Rightarrow> bool" where
  \<comment> \<open>every match of the pattern contains the character, by a literal of the pattern\<close>
  "needs c (Lit l) = (c \<in> set l)"
| "needs c (One P) = False"
| "needs c (Rep greedy n P) = False"
| "needs c (Seq a b) = (needs c a \<or> needs c b)"
| "needs c (Alt a b) = (needs c a \<and> needs c b)"
| "needs c (Grp n a) = needs c a"

definition caseless :: "char \<Rightarrow> bool" where
  \<comment> \<open>only the character itself matches it when case is ignored\<close>
  "caseless c = (\<forall>x. lower x = lower c \<longrightarrow> x = c)"


section \<open>The matcher sets the groups of a pattern\<close>

lemma rep_Some: "rep greedy n P s k = Some v \<Longrightarrow> \<exists>s'. k s' = Some v"
  by (induction greedy n P s k rule: rep.induct) (auto split: if_splits option.splits)

lemma ms_Some:
  "ms ic r s g k = Some v \<Longrightarrow>
   \<exists>s' g'. k s' g' = Some v \<and> (\<forall>n\<in>must r. g' n \<noteq> None) \<and> (\<forall>n. g n \<noteq> None \<longrightarrow> g' n \<noteq> None)"
proof (induction r arbitrary: s g k v)
  case (Lit l)
  then show ?case by (auto split: option.splits)
next
  case (One P)
  then show ?case by (auto split: list.splits if_splits)
next
  case (Rep greedy n P)
  then show ?case using rep_Some [of greedy n P s "\<lambda>s'. k s' g" v] by auto
next
  case (Seq a b)
  from Seq.prems have "ms ic a s g (\<lambda>s' g'. ms ic b s' g' k) = Some v" by simp
  from Seq.IH(1) [OF this] obtain s1 g1 where
    1: "ms ic b s1 g1 k = Some v" "\<forall>n\<in>must a. g1 n \<noteq> None" "\<forall>n. g n \<noteq> None \<longrightarrow> g1 n \<noteq> None"
    by blast
  from Seq.IH(2) [OF 1(1)] obtain s2 g2 where
    2: "k s2 g2 = Some v" "\<forall>n\<in>must b. g2 n \<noteq> None" "\<forall>n. g1 n \<noteq> None \<longrightarrow> g2 n \<noteq> None"
    by blast
  from 1 2 show ?case by (intro exI [of _ s2] exI [of _ g2]) auto
next
  case (Alt a b)
  show ?case
  proof (cases "ms ic a s g k")
    case None
    with Alt.prems have "ms ic b s g k = Some v" by simp
    from Alt.IH(2) [OF this] show ?thesis by auto
  next
    case (Some w)
    with Alt.prems have "ms ic a s g k = Some v" by simp
    from Alt.IH(1) [OF this] show ?thesis by auto
  qed
next
  case (Grp n a)
  from Grp.prems have
    "ms ic a s g (\<lambda>s' g'. k s' (g'(n \<mapsto> take (length s - length s') s))) = Some v" by simp
  from Grp.IH [OF this] obtain s1 g1 where
    1: "k s1 (g1(n \<mapsto> take (length s - length s1) s)) = Some v"
       "\<forall>n\<in>must a. g1 n \<noteq> None" "\<forall>n. g n \<noteq> None \<longrightarrow> g1 n \<noteq> None"
    by blast
  define g2 where "g2 = g1(n \<mapsto> take (length s - length s1) s)"
  from 1(1) have "k s1 g2 = Some v" by (simp add: g2_def)
  moreover from 1(2) have "\<forall>m\<in>must (Grp n a). g2 m \<noteq> None" by (simp add: g2_def)
  moreover from 1(3) have "\<forall>m. g m \<noteq> None \<longrightarrow> g2 m \<noteq> None" by (simp add: g2_def)
  ultimately show ?case by blast
qed

lemma re_match_must: "re_match ic r s = Some g \<Longrightarrow> n \<in> must r \<Longrightarrow> g n \<noteq> None"
  unfolding re_match_def by (drule ms_Some) auto

lemma re_search_must: "re_search ic r s = Some g \<Longrightarrow> n \<in> must r \<Longrightarrow> g n \<noteq> None"
  by (induction s) (auto split: option.splits dest: re_match_must)

lemma must_date_line: "must date_line_pattern = {1, 2, 3, 4, 5, 6, 7}"
  by (auto simp: date_line_pattern_def)

lemma must_treatment_line: "must treatment_line_pattern = {1, 2, 3, 4}"
  by (auto simp: treatment_line_pattern_def)


section \<open>The scan as a function of the remaining lines\<close>

lemma set_date_fields_eq: "set_date_fields nl d = Inr (date_fields nl d)"
proof (cases "re_match False date_line_pattern nl")
  case None
  then show ?thesis by (simp add: set_date_fields_def date_fields_def)
next
  case (Some m)
  have "\<forall>n\<in>{2, 3, 4, 5, 6, 7}. m n \<noteq> None"
    using re_match_must [OF Some] by (simp add: must_date_line)
  then obtain v2 v3 v4 v5 v6 v7 where
    "m 2 = Some v2" "m 3 = Some v3" "m 4 = Some v4" "m 5 = Some v5" "m 6 = Some v6"
    "m 7 = Some v7" by auto
  with Some show ?thesis
    by (simp add: set_date_fields_def date_fields_def group_strip_def bind_def)
qed

lemma set_treatment_fields_eq: "set_treatment_fields nl d = Inr (treatment_fields nl d)"
proof (cases "re_match False treatment_line_pattern nl")
  case None
  then show ?thesis by (simp add: set_treatment_fields_def treatment_fields_def)
next
  case (Some m)
  have "\<forall>n\<in>{1, 2, 3, 4}. m n \<noteq> None"
    using re_match_must [OF Some] by (simp add: must_treatment_line)
  then obtain v1 v2 v3 v4 where
    "m 1 = Some v1" "m 2 = Some v2" "m 3 = Some v3" "m 4 = Some v4" by auto
  with Some show ?thesis
    by (simp add: set_treatment_fields_def treatment_fields_def group_strip_def bind_def)
qed

lemma date_block_at:
  "date_block (done @ line # rest) (length done) d =
     Inr (case rest of [] \<Rightarrow> d | l # _ \<Rightarrow> date_fields (strip l) d)"
  by (cases rest) (simp_all add: date_block_def py_index_def bind_def set_date_fields_eq nth_append)

lemma treatment_block_at:
  "treatment_block (done @ line # rest) (length done) d =
     Inr (case rest of [] \<Rightarrow> d | l # _ \<Rightarrow> treatment_fields (strip l) d)"
  by (cases rest)
    (simp_all add: treatment_block_def py_index_def bind_def set_treatment_fields_eq nth_append)

lemma details_block_at:
  "details_block (done @ line # rest) (length done) d = details_upd rest d"
  by (simp add: details_block_def details_upd_def Let_def)

lemma scan_run: "scan (done @ rest) (length done) rest d = Inr (run rest d)"
proof (induction rest arbitrary: "done" d)
  case Nil
  show ?case by simp
next
  case (Cons line rest)
  have "scan ((done @ [line]) @ rest) (length (done @ [line])) rest d' = Inr (run rest d')" for d'
    by (rule Cons.IH)
  then have IH: "scan (done @ line # rest) (Suc (length done)) rest d' = Inr (run rest d')" for d'
    by simp
  show ?case
    by (simp add: date_block_at treatment_block_at details_block_at bind_def IH line_fields_def
        Let_def)
qed

lemma parse_stimulation_data_run:
  "parse_stimulation_data text = Inr (run (splitlines text) empty_stim)"
  using scan_run [of "[]" "splitlines text" empty_stim]
  by (simp add: parse_stimulation_data_def Let_def)


section \<open>Stimulation data: properties\<close>

lemmas cls = is_space_def is_digit_def is_word_def not_newline_def any_char_def
  is_digit_or_dot_def is_digit_or_hyphen_def one_of_def is_linebreak_def

lemmas date_eval = strptime_def strptime_pattern_def no_groups_def chr_eq_def valid_date_def
  int_of_def digit_val_def days_in_month_def is_leap_def strip_def lower_def strftime_def
  pad2_def year_str_def digit_chr_def

subsection \<open>The field \<open>acid_percent\<close>\<close>

lemma acid_date_fields: "acid_percent (date_fields nl d) = acid_percent d"
  by (simp add: date_fields_def split: option.split)

lemma acid_treatment_fields: "acid_percent (treatment_fields nl d) = acid_percent d"
  by (simp add: treatment_fields_def split: option.split)

lemma acid_line_fields: "acid_percent (line_fields line rest d) = acid_percent d"
  by (simp add: line_fields_def Let_def acid_date_fields acid_treatment_fields split: list.split)

lemma acid_details_upd: "acid_percent (details_upd rest d) = acid_percent d"
  by (simp add: details_upd_def)

lemma acid_run: "acid_percent (run ls d) = acid_percent d"
  by (induction ls arbitrary: d) (simp_all add: acid_details_upd acid_line_fields)

text \<open>
  Claim C10. For every input text the extraction returns a stimulation record, and its
  \<open>acid_percent\<close> field is unset: the record starts with the field unset and no step of
  the scan assigns it.
\<close>

theorem acid_percent_never_set:
  "\<exists>r. parse_stimulation_data text = Inr r \<and> acid_percent r = None"
  by (simp add: parse_stimulation_data_run acid_run empty_stim_def)

subsection \<open>The block after \<^verbatim>\<open>Date Stimulated\<close>\<close>

lemma date_part_treatment_fields: "date_part (treatment_fields nl d) = date_part d"
  by (simp add: treatment_fields_def date_part_def split: option.split)

lemma date_part_details_upd: "date_part (details_upd rest d) = date_part d"
  by (simp add: details_upd_def date_part_def)

lemma date_part_line_fields_other:
  "\<not> contains ''Date Stimulated'' (strip line) \<Longrightarrow>
   date_part (line_fields line rest d) = date_part d"
  by (simp add: line_fields_def Let_def date_part_treatment_fields split: list.split)

lemma date_part_line_fields_marker:
  "contains ''Date Stimulated'' (strip line) \<Longrightarrow>
   date_part (line_fields line (nxt # post) d) = date_part (date_fields (strip nxt) d)"
  by (simp add: line_fields_def Let_def date_part_treatment_fields)

lemma date_part_run_other:
  "\<forall>l\<in>set ls. \<not> contains ''Date Stimulated'' (strip l) \<Longrightarrow> date_part (run ls d) = date_part d"
  by (induction ls arbitrary: d)
    (simp_all add: date_part_details_upd date_part_line_fields_other)

lemma date_part_run_single:
  assumes "\<forall>l\<in>set pre. \<not> contains ''Details'' (strip l)"
    and "contains ''Date Stimulated'' (strip m)"
    and "\<forall>l\<in>set (pre @ nxt # post). \<not> contains ''Date Stimulated'' (strip l)"
  shows "\<exists>d'. date_part d' = date_part d \<and>
     date_part (run (pre @ m # nxt # post) d) = date_part (date_fields (strip nxt) d')"
  using assms
proof (induction pre arbitrary: d)
  case Nil
  then have "date_part (run (nxt # post) d2) = date_part d2" for d2
    by (intro date_part_run_other) simp
  with Nil show ?case
    by (auto simp: date_part_details_upd date_part_line_fields_marker)
next
  case (Cons l pre)
  let ?d1 = "line_fields l (pre @ m # nxt # post) d"
  from Cons.prems have "date_part ?d1 = date_part d"
    by (simp add: date_part_line_fields_other)
  moreover from Cons.prems have "\<exists>d'. date_part d' = date_part ?d1 \<and>
     date_part (run (pre @ m # nxt # post) ?d1) = date_part (date_fields (strip nxt) d')"
    by (intro Cons.IH) simp_all
  ultimately show ?case using Cons.prems by auto
qed

lemma date_part_date_fields:
  "date_part (date_fields nl d) =
     (case re_match False date_line_pattern nl of
        None \<Rightarrow> date_part d
      | Some g \<Rightarrow> [normalize_date g, map_option strip (g 2), map_option strip (g 3),
          map_option strip (g 4), map_option strip (g 5), map_option strip (g 6),
          map_option strip (g 7)])"
  by (simp add: date_fields_def date_part_def split: option.split)

lemma single_date_block:
  assumes "splitlines text = pre @ m # nxt # post"
    and "\<forall>l\<in>set pre. \<not> contains ''Details'' (strip l)"
    and "contains ''Date Stimulated'' (strip m)"
    and "\<forall>l\<in>set (pre @ nxt # post). \<not> contains ''Date Stimulated'' (strip l)"
  shows "\<exists>r. parse_stimulation_data text = Inr r \<and>
     date_part r =
       (case re_match False date_line_pattern (strip nxt) of
          None \<Rightarrow> [None, None, None, None, None, None, None]
        | Some g \<Rightarrow> [normalize_date g, map_option strip (g 2), map_option strip (g 3),
            map_option strip (g 4), map_option strip (g 5), map_option strip (g 6),
            map_option strip (g 7)])"
proof -
  from date_part_run_single [OF assms(2-4), of empty_stim] obtain d' where
    d': "date_part d' = date_part empty_stim"
    "date_part (run (pre @ m # nxt # post) empty_stim) = date_part (date_fields (strip nxt) d')"
    by blast
  have "date_part empty_stim = [None, None, None, None, None, None, None]"
    by (simp add: date_part_def empty_stim_def)
  with d' show ?thesis
    by (simp add: parse_stimulation_data_run assms(1) date_part_date_fields split: option.split)
qed

lemma date_line_example:
  "\<exists>g. re_match False date_line_pattern
          ''06/09/2015 Three Forks Second Bench 11185 20754 50 I 126978 Barrels'' = Some g \<and>
       g 1 = Some ''06/09/2015'' \<and> g 2 = Some ''Three Forks Second Bench'' \<and>
       g 3 = Some ''11185'' \<and> g 4 = Some ''20754'' \<and> g 5 = Some ''50'' \<and>
       g 6 = Some ''126978'' \<and> g 7 = Some ''Barrels''"
  by (simp add: re_match_def date_line_pattern_def no_groups_def chr_eq_def cls)

lemma normalize_date_example:
  "g 1 = Some ''06/09/2015'' \<Longrightarrow> normalize_date g = Some ''2015-06-09''"
  by (simp add: normalize_date_def group_strip_def bind_def date_eval cls)


lemma date_fields_example:
  "date_fields ''06/09/2015 Three Forks Second Bench 11185 20754 50 I 126978 Barrels'' d =
     d\<lparr>date_stimulated := Some ''2015-06-09'',
       stimulated_formation := Some ''Three Forks Second Bench'',
       top_depth := Some ''11185'', bottom_depth := Some ''20754'',
       stimulation_stages := Some ''50'', volume := Some ''126978'',
       volume_units := Some ''Barrels''\<rparr>"
proof -
  from date_line_example obtain g where
    "re_match False date_line_pattern
       ''06/09/2015 Three Forks Second Bench 11185 20754 50 I 126978 Barrels'' = Some g"
    "g 1 = Some ''06/09/2015''" "g 2 = Some ''Three Forks Second Bench''"
    "g 3 = Some ''11185''" "g 4 = Some ''20754''" "g 5 = Some ''50''"
    "g 6 = Some ''126978''" "g 7 = Some ''Barrels''"
    by blast
  then show ?thesis
    by (simp add: date_fields_def normalize_date_example strip_def cls)
qed

text \<open>
  Claim C1, as amended. Take a document in which the line containing \<^verbatim>\<open>Date Stimulated\<close>
  is reached by the scan (no earlier line contains \<^verbatim>\<open>Details\<close>), has a next line, and is
  the only line with that marker. Then the extraction returns a record in which: if the
  next line, trimmed, is
  \<^verbatim>\<open>06/09/2015 Three Forks Second Bench 11185 20754 50 I 126978 Barrels\<close>, the seven fields are
  \<^verbatim>\<open>2015-06-09\<close>, \<^verbatim>\<open>Three Forks Second Bench\<close>, \<^verbatim>\<open>11185\<close>, \<^verbatim>\<open>20754\<close>, \<^verbatim>\<open>50\<close>, \<^verbatim>\<open>126978\<close>, \<^verbatim>\<open>Barrels\<close>;
  in general, if the trimmed next line matches the positional pattern, the six text fields
  are the trimmed groups 2 to 7 and \<open>date_stimulated\<close> is the normalised date token, and if
  it does not match, all seven fields are unset.
\<close>

theorem date_block_fields:
  assumes "splitlines text = pre @ m # nxt # post"
    and "\<forall>l\<in>set pre. \<not> contains ''Details'' (strip l)"
    and "contains ''Date Stimulated'' (strip m)"
    and "\<forall>l\<in>set (pre @ nxt # post). \<not> contains ''Date Stimulated'' (strip l)"
  shows "\<exists>r. parse_stimulation_data text = Inr r \<and>
     (strip nxt = ''06/09/2015 Three Forks Second Bench 11185 20754 50 I 126978 Barrels'' \<longrightarrow>
        date_stimulated r = Some ''2015-06-09'' \<and>
        stimulated_formation r = Some ''Three Forks Second Bench'' \<and>
        top_depth r = Some ''11185'' \<and> bottom_depth r = Some ''20754'' \<and>
        stimulation_stages r = Some ''50'' \<and> volume r = Some ''126978'' \<and>
        volume_units r = Some ''Barrels'') \<and>
     (case re_match False date_line_pattern (strip nxt) of
        None \<Rightarrow>
          date_stimulated r = None \<and> stimulated_formation r = None \<and> top_depth r = None \<and>
          bottom_depth r = None \<and> stimulation_stages r = None \<and> volume r = None \<and>
          volume_units r = None
      | Some g \<Rightarrow>
          date_stimulated r = normalize_date g \<and>
          (\<exists>v2 v3 v4 v5 v6 v7.
             g 2 = Some v2 \<and> g 3 = Some v3 \<and> g 4 = Some v4 \<and> g 5 = Some v5 \<and>
             g 6 = Some v6 \<and> g 7 = Some v7 \<and>
             stimulated_formation r = Some (strip v2) \<and> top_depth r = Some (strip v3) \<and>
             bottom_depth r = Some (strip v4) \<and> stimulation_stages r = Some (strip v5) \<and>
             volume r = Some (strip v6) \<and> volume_units r = Some (strip v7)))"
proof -
  from single_date_block [OF assms] obtain r where
    r: "parse_stimulation_data text = Inr r"
    and part: "date_part r =
       (case re_match False date_line_pattern (strip nxt) of
          None \<Rightarrow> [None, None, None, None, None, None, None]
        | Some g \<Rightarrow> [normalize_date g, map_option strip (g 2), map_option strip (g 3),
            map_option strip (g 4), map_option strip (g 5), map_option strip (g 6),
            map_option strip (g 7)])"
    by blast
  have general: "case re_match False date_line_pattern (strip nxt) of
        None \<Rightarrow>
          date_stimulated r = None \<and> stimulated_formation r = None \<and> top_depth r = None \<and>
          bottom_depth r = None \<and> stimulation_stages r = None \<and> volume r = None \<and>
          volume_units r = None
      | Some g \<Rightarrow>
          date_stimulated r = normalize_date g \<and>
          (\<exists>v2 v3 v4 v5 v6 v7.
             g 2 = Some v2 \<and> g 3 = Some v3 \<and> g 4 = Some v4 \<and> g 5 = Some v5 \<and>
             g 6 = Some v6 \<and> g 7 = Some v7 \<and>
             stimulated_formation r = Some (strip v2) \<and> top_depth r = Some (strip v3) \<and>
             bottom_depth r = Some (strip v4) \<and> stimulation_stages r = Some (strip v5) \<and>
             volume r = Some (strip v6) \<and> volume_units r = Some (strip v7))"
  proof (cases "re_match False date_line_pattern (strip nxt)")
    case None
    with part show ?thesis by (simp add: date_part_def)
  next
    case (Some g)
    have "\<forall>n\<in>{2, 3, 4, 5, 6, 7}. g n \<noteq> None"
      using re_match_must [OF Some] by (simp add: must_date_line)
    then obtain v2 v3 v4 v5 v6 v7 where
      "g 2 = Some v2" "g 3 = Some v3" "g 4 = Some v4" "g 5 = Some v5" "g 6 = Some v6"
      "g 7 = Some v7" by auto
    with part Some show ?thesis by (simp add: date_part_def)
  qed
  have example: "date_stimulated r = Some ''2015-06-09'' \<and>
        stimulated_formation r = Some ''Three Forks Second Bench'' \<and>
        top_depth r = Some ''11185'' \<and> bottom_depth r = Some ''20754'' \<and>
        stimulation_stages r = Some ''50'' \<and> volume r = Some ''126978'' \<and>
        volume_units r = Some ''Barrels''"
    if "strip nxt = ''06/09/2015 Three Forks Second Bench 11185 20754 50 I 126978 Barrels''"
  proof -
    from date_line_example obtain g where
      "re_match False date_line_pattern
         ''06/09/2015 Three Forks Second Bench 11185 20754 50 I 126978 Barrels'' = Some g"
      "g 1 = Some ''06/09/2015''" "g 2 = Some ''Three Forks Second Bench''"
      "g 3 = Some ''11185''" "g 4 = Some ''20754''" "g 5 = Some ''50''"
      "g 6 = Some ''126978''" "g 7 = Some ''Barrels''"
      by blast
    with part that show ?thesis
      by (simp add: date_part_def normalize_date_example strip_def cls)
  qed
  from r general example show ?thesis by blast
qed

text \<open>
  Claim C1, witness: the two-line document of the specification satisfies the hypotheses
  and yields the seven values.
\<close>

theorem date_block_fields_witness:
  "splitlines ''Date Stimulated\<newline>06/09/2015 Three Forks Second Bench 11185 20754 50 I 126978 Barrels'' =
     [''Date Stimulated'',
      ''06/09/2015 Three Forks Second Bench 11185 20754 50 I 126978 Barrels''] \<and>
   contains ''Date Stimulated'' (strip ''Date Stimulated'') \<and>
   \<not> contains ''Date Stimulated''
       (strip ''06/09/2015 Three Forks Second Bench 11185 20754 50 I 126978 Barrels'') \<and>
   (\<exists>r. parse_stimulation_data
          ''Date Stimulated\<newline>06/09/2015 Three Forks Second Bench 11185 20754 50 I 126978 Barrels'' =
          Inr r \<and>
        date_stimulated r = Some ''2015-06-09'' \<and>
        stimulated_formation r = Some ''Three Forks Second Bench'' \<and>
        top_depth r = Some ''11185'' \<and> bottom_depth r = Some ''20754'' \<and>
        stimulation_stages r = Some ''50'' \<and> volume r = Some ''126978'' \<and>
        volume_units r = Some ''Barrels'')"
proof -
  let ?ex = "''06/09/2015 Three Forks Second Bench 11185 20754 50 I 126978 Barrels''"
  let ?doc = "''Date Stimulated\<newline>06/09/2015 Three Forks Second Bench 11185 20754 50 I 126978 Barrels''"
  have h1: "splitlines ?doc = [] @ ''Date Stimulated'' # ?ex # []"
    by (simp add: splitlines_def cls)
  have s: "strip ?ex = ?ex" "strip ''Date Stimulated'' = ''Date Stimulated''"
    by (simp_all add: strip_def cls)
  have h2: "\<forall>l\<in>set []. \<not> contains ''Details'' (strip l)" by simp
  have h3: "contains ''Date Stimulated'' (strip ''Date Stimulated'')" by (simp add: s)
  have h4: "\<forall>l\<in>set ([] @ ?ex # []). \<not> contains ''Date Stimulated'' (strip l)"
    by (simp add: s)
  from date_block_fields [OF h1 h2 h3 h4] s(1) h1 h3 h4 show ?thesis by auto
qed

text \<open>
  Claim C1, counterexample to the claim as stated: this document contains the marker line
  followed by the example line, but an earlier line contains \<^verbatim>\<open>Details\<close>, the scan stops
  there and every field stays unset.
\<close>

theorem date_block_after_details_counterexample:
  "splitlines ''Details\<newline>Date Stimulated\<newline>06/09/2015 Three Forks Second Bench 11185 20754 50 I 126978 Barrels'' =
     [''Details'', ''Date Stimulated'',
      ''06/09/2015 Three Forks Second Bench 11185 20754 50 I 126978 Barrels''] \<and>
   contains ''Date Stimulated'' ''Date Stimulated'' \<and>
   parse_stimulation_data
     ''Details\<newline>Date Stimulated\<newline>06/09/2015 Three Forks Second Bench 11185 20754 50 I 126978 Barrels'' =
     Inr empty_stim \<and>
   date_stimulated empty_stim = None \<and> stimulated_formation empty_stim = None"
proof -
  have h1: "splitlines ''Details\<newline>Date Stimulated\<newline>06/09/2015 Three Forks Second Bench 11185 20754 50 I 126978 Barrels'' =
     [''Details'', ''Date Stimulated'',
      ''06/09/2015 Three Forks Second Bench 11185 20754 50 I 126978 Barrels'']"
    by (simp add: splitlines_def cls)
  have s: "strip ''Details'' = ''Details''" "strip ''Date Stimulated'' = ''Date Stimulated''"
    by (simp_all add: strip_def cls)
  show ?thesis
    by (simp add: parse_stimulation_data_run h1 s line_fields_def details_upd_def
        startswith_def empty_stim_def)
qed

subsection \<open>The block after \<^verbatim>\<open>Type Treatment\<close>\<close>

lemma treatment_part_date_fields: "treatment_part (date_fields nl d) = treatment_part d"
  by (simp add: date_fields_def treatment_part_def split: option.split)

lemma treatment_part_details_upd: "treatment_part (details_upd rest d) = treatment_part d"
  by (simp add: details_upd_def treatment_part_def)

lemma treatment_part_line_fields_other:
  "\<not> contains ''Type Treatment'' (strip line) \<Longrightarrow>
   treatment_part (line_fields line rest d) = treatment_part d"
  by (simp add: line_fields_def Let_def treatment_part_date_fields split: list.split)

lemma treatment_part_treatment_fields:
  "treatment_part (treatment_fields nl d) =
     (case re_match False treatment_line_pattern nl of
        None \<Rightarrow> treatment_part d
      | Some g \<Rightarrow> [map_option strip (g 1), map_option strip (g 2), map_option strip (g 3),
          map_option strip (g 4)])"
  by (simp add: treatment_fields_def treatment_part_def split: option.split)

lemma treatment_part_line_fields_marker:
  "contains ''Type Treatment'' (strip line) \<Longrightarrow> treatment_part d' = treatment_part d \<Longrightarrow>
   treatment_part (line_fields line (nxt # post) d') =
   treatment_part (treatment_fields (strip nxt) d)"
  by (simp add: line_fields_def Let_def treatment_part_treatment_fields
      treatment_part_date_fields split: option.split)

lemma treatment_part_run_other:
  "\<forall>l\<in>set ls. \<not> contains ''Type Treatment'' (strip l) \<Longrightarrow>
   treatment_part (run ls d) = treatment_part d"
  by (induction ls arbitrary: d)
    (simp_all add: treatment_part_details_upd treatment_part_line_fields_other)

lemma treatment_part_run_single:
  assumes "\<forall>l\<in>set pre. \<not> contains ''Details'' (strip l)"
    and "contains ''Type Treatment'' (strip m)"
    and "\<forall>l\<in>set (pre @ nxt # post). \<not> contains ''Type Treatment'' (strip l)"
  shows "treatment_part (run (pre @ m # nxt # post) d) =
     treatment_part (treatment_fields (strip nxt) d)"
  using assms
proof (induction pre arbitrary: d)
  case Nil
  then have "treatment_part (run (nxt # post) d2) = treatment_part d2" for d2
    by (intro treatment_part_run_other) simp
  with Nil show ?case
    by (simp add: treatment_part_details_upd
        treatment_part_line_fields_marker [where d = d and d' = d])
next
  case (Cons l pre)
  let ?d1 = "line_fields l (pre @ m # nxt # post) d"
  from Cons.prems have 1: "treatment_part ?d1 = treatment_part d"
    by (simp add: treatment_part_line_fields_other)
  from Cons.prems have "treatment_part (run (pre @ m # nxt # post) ?d1) =
     treatment_part (treatment_fields (strip nxt) ?d1)"
    by (intro Cons.IH) simp_all
  with 1 Cons.prems show ?case
    by (simp add: treatment_part_treatment_fields split: option.split)
qed

lemma single_treatment_block:
  assumes "splitlines text = pre @ m # nxt # post"
    and "\<forall>l\<in>set pre. \<not> contains ''Details'' (strip l)"
    and "contains ''Type Treatment'' (strip m)"
    and "\<forall>l\<in>set (pre @ nxt # post). \<not> contains ''Type Treatment'' (strip l)"
  shows "\<exists>r. parse_stimulation_data text = Inr r \<and>
     treatment_part r =
       (case re_match False treatment_line_pattern (strip nxt) of
          None \<Rightarrow> [None, None, None, None]
        | Some g \<Rightarrow> [map_option strip (g 1), map_option strip (g 2), map_option strip (g 3),
            map_option strip (g 4)])"
proof -
  have "treatment_part empty_stim = [None, None, None, None]"
    by (simp add: treatment_part_def empty_stim_def)
  with treatment_part_run_single [OF assms(2-4), of empty_stim] show ?thesis
    by (simp add: parse_stimulation_data_run assms(1) treatment_part_treatment_fields
        split: option.split)
qed

lemma treatment_line_example:
  "\<exists>g. re_match False treatment_line_pattern ''Sand Frac 4230380 9122 39.0'' = Some g \<and>
       g 1 = Some ''Sand Frac'' \<and> g 2 = Some ''4230380'' \<and> g 3 = Some ''9122'' \<and>
       g 4 = Some ''39.0''"
  by (simp add: re_match_def treatment_line_pattern_def no_groups_def chr_eq_def cls)

text \<open>
  Claim C2, as amended. Take a document in which the line containing \<^verbatim>\<open>Type Treatment\<close>
  is reached by the scan (no earlier line contains \<^verbatim>\<open>Details\<close>), has a next line, and is
  the only line with that marker. Then the extraction returns a record in which: if the
  next line, trimmed, is \<^verbatim>\<open>Sand Frac 4230380 9122 39.0\<close>, the four fields are \<^verbatim>\<open>Sand Frac\<close>,
  \<^verbatim>\<open>4230380\<close>, \<^verbatim>\<open>9122\<close>, \<^verbatim>\<open>39.0\<close>; in general, if the trimmed next line matches the pattern,
  the four fields are the trimmed groups 1 to 4, and if it does not match, all four fields
  are unset.
\<close>

theorem treatment_block_fields:
  assumes "splitlines text = pre @ m # nxt # post"
    and "\<forall>l\<in>set pre. \<not> contains ''Details'' (strip l)"
    and "contains ''Type Treatment'' (strip m)"
    and "\<forall>l\<in>set (pre @ nxt # post). \<not> contains ''Type Treatment'' (strip l)"
  shows "\<exists>r. parse_stimulation_data text = Inr r \<and>
     (strip nxt = ''Sand Frac 4230380 9122 39.0'' \<longrightarrow>
        type_treatment r = Some ''Sand Frac'' \<and> lbs_proppant r = Some ''4230380'' \<and>
        max_treatment_pressure r = Some ''9122'' \<and> max_treatment_rate r = Some ''39.0'') \<and>
     (case re_match False treatment_line_pattern (strip nxt) of
        None \<Rightarrow>
          type_treatment r = None \<and> lbs_proppant r = None \<and>
          max_treatment_pressure r = None \<and> max_treatment_rate r = None
      | Some g \<Rightarrow>
          (\<exists>v1 v2 v3 v4.
             g 1 = Some v1 \<and> g 2 = Some v2 \<and> g 3 = Some v3 \<and> g 4 = Some v4 \<and>
             type_treatment r = Some (strip v1) \<and> lbs_proppant r = Some (strip v2) \<and>
             max_treatment_pressure r = Some (strip v3) \<and>
             max_treatment_rate r = Some (strip v4)))"
proof -
  from single_treatment_block [OF assms] obtain r where
    r: "parse_stimulation_data text = Inr r"
    and part: "treatment_part r =
       (case re_match False treatment_line_pattern (strip nxt) of
          None \<Rightarrow> [None, None, None, None]
        | Some g \<Rightarrow> [map_option strip (g 1), map_option strip (g 2), map_option strip (g 3),
            map_option strip (g 4)])"
    by blast
  have general: "case re_match False treatment_line_pattern (strip nxt) of
        None \<Rightarrow>
          type_treatment r = None \<and> lbs_proppant r = None \<and>
          max_treatment_pressure r = None \<and> max_treatment_rate r = None
      | Some g \<Rightarrow>
          (\<exists>v1 v2 v3 v4.
             g 1 = Some v1 \<and> g 2 = Some v2 \<and> g 3 = Some v3 \<and> g 4 = Some v4 \<and>
             type_treatment r = Some (strip v1) \<and> lbs_proppant r = Some (strip v2) \<and>
             max_treatment_pressure r = Some (strip v3) \<and>
             max_treatment_rate r = Some (strip v4))"
  proof (cases "re_match False treatment_line_pattern (strip nxt)")
    case None
    with part show ?thesis by (simp add: treatment_part_def)
  next
    case (Some g)
    have "\<forall>n\<in>{1, 2, 3, 4}. g n \<noteq> None"
      using re_match_must [OF Some] by (simp add: must_treatment_line)
    then obtain v1 v2 v3 v4 where
      "g 1 = Some v1" "g 2 = Some v2" "g 3 = Some v3" "g 4 = Some v4" by auto
    with part Some show ?thesis by (simp add: treatment_part_def)
  qed
  have example: "type_treatment r = Some ''Sand Frac'' \<and> lbs_proppant r = Some ''4230380'' \<and>
        max_treatment_pressure r = Some ''9122'' \<and> max_treatment_rate r = Some ''39.0''"
    if "strip nxt = ''Sand Frac 4230380 9122 39.0''"
  proof -
    from treatment_line_example obtain g where
      "re_match False treatment_line_pattern ''Sand Frac 4230380 9122 39.0'' = Some g"
      "g 1 = Some ''Sand Frac''" "g 2 = Some ''4230380''" "g 3 = Some ''9122''"
      "g 4 = Some ''39.0''"
      by blast
    with part that show ?thesis
      by (simp add: treatment_part_def strip_def cls)
  qed
  from r general example show ?thesis by blast
qed

text \<open>
  Claim C2, witness: the two-line document of the specification satisfies the hypotheses
  and yields the four values.
\<close>

theorem treatment_block_fields_witness:
  "splitlines ''Type Treatment\<newline>Sand Frac 4230380 9122 39.0'' =
     [''Type Treatment'', ''Sand Frac 4230380 9122 39.0''] \<and>
   contains ''Type Treatment'' (strip ''Type Treatment'') \<and>
   \<not> contains ''Type Treatment'' (strip ''Sand Frac 4230380 9122 39.0'') \<and>
   (\<exists>r. parse_stimulation_data ''Type Treatment\<newline>Sand Frac 4230380 9122 39.0'' = Inr r \<and>
        type_treatment r = Some ''Sand Frac'' \<and> lbs_proppant r = Some ''4230380'' \<and>
        max_treatment_pressure r = Some ''9122'' \<and> max_treatment_rate r = Some ''39.0'')"
proof -
  let ?ex = "''Sand Frac 4230380 9122 39.0''"
  let ?doc = "''Type Treatment\<newline>Sand Frac 4230380 9122 39.0''"
  have h1: "splitlines ?doc = [] @ ''Type Treatment'' # ?ex # []"
    by (simp add: splitlines_def cls)
  have s: "strip ?ex = ?ex" "strip ''Type Treatment'' = ''Type Treatment''"
    by (simp_all add: strip_def cls)
  have h2: "\<forall>l\<in>set []. \<not> contains ''Details'' (strip l)" by simp
  have h3: "contains ''Type Treatment'' (strip ''Type Treatment'')" by (simp add: s)
  have h4: "\<forall>l\<in>set ([] @ ?ex # []). \<not> contains ''Type Treatment'' (strip l)"
    by (simp add: s)
  from treatment_block_fields [OF h1 h2 h3 h4] s(1) h1 h3 h4 show ?thesis by auto
qed

text \<open>
  Claim C2, counterexample to the claim as stated: this document contains the marker line
  followed by the example line, but an earlier line contains \<^verbatim>\<open>Details\<close>, the scan stops
  there and every field stays unset.
\<close>

theorem treatment_block_after_details_counterexample:
  "splitlines ''Details\<newline>Type Treatment\<newline>Sand Frac 4230380 9122 39.0'' =
     [''Details'', ''Type Treatment'', ''Sand Frac 4230380 9122 39.0''] \<and>
   contains ''Type Treatment'' ''Type Treatment'' \<and>
   parse_stimulation_data ''Details\<newline>Type Treatment\<newline>Sand Frac 4230380 9122 39.0'' =
     Inr empty_stim \<and>
   type_treatment empty_stim = None \<and> lbs_proppant empty_stim = None"
proof -
  have h1: "splitlines ''Details\<newline>Type Treatment\<newline>Sand Frac 4230380 9122 39.0'' =
     [''Details'', ''Type Treatment'', ''Sand Frac 4230380 9122 39.0'']"
    by (simp add: splitlines_def cls)
  have s: "strip ''Details'' = ''Details''" "strip ''Type Treatment'' = ''Type Treatment''"
    by (simp_all add: strip_def cls)
  show ?thesis
    by (simp add: parse_stimulation_data_run h1 s line_fields_def details_upd_def
        startswith_def empty_stim_def)
qed

subsection \<open>The block after \<^verbatim>\<open>Details\<close>\<close>

lemma line_fields_take1: "line_fields line rest d = line_fields line (take 1 rest) d"
  by (cases rest) (simp_all add: line_fields_def)

lemma details_date_fields: "proppant_details (date_fields nl d) = proppant_details d"
  by (simp add: date_fields_def split: option.split)

lemma details_treatment_fields: "proppant_details (treatment_fields nl d) = proppant_details d"
  by (simp add: treatment_fields_def split: option.split)

lemma details_line_fields: "proppant_details (line_fields line rest d) = proppant_details d"
  by (simp add: line_fields_def Let_def details_date_fields details_treatment_fields
      split: list.split)

lemma run_details:
  assumes "\<forall>l\<in>set pre. \<not> contains ''Details'' (strip l)"
    and "contains ''Details'' (strip m)"
  shows "\<exists>d2. proppant_details d2 = proppant_details d \<and>
     (\<forall>post. take 1 post = t \<longrightarrow> run (pre @ m # post) d = details_upd post d2)"
  using assms
proof (induction pre arbitrary: d)
  case Nil
  have "run ([] @ m # post) d = details_upd post (line_fields m t d)" if "take 1 post = t" for post
    using Nil.prems(2) that line_fields_take1 [of m post d] by simp
  then show ?case
    using details_line_fields [of m t d] by blast
next
  case (Cons l pre)
  let ?d1 = "line_fields l (take 1 (pre @ [m])) d"
  have 1: "line_fields l (pre @ m # post) d = ?d1" for post
    using line_fields_take1 [of l "pre @ m # post" d] by (cases pre) simp_all
  from Cons.prems have "\<exists>d2. proppant_details d2 = proppant_details ?d1 \<and>
     (\<forall>post. take 1 post = t \<longrightarrow> run (pre @ m # post) ?d1 = details_upd post d2)"
    by (intro Cons.IH) simp_all
  then obtain d2 where d2: "proppant_details d2 = proppant_details ?d1"
    "\<forall>post. take 1 post = t \<longrightarrow> run (pre @ m # post) ?d1 = details_upd post d2"
    by blast
  from Cons.prems have "run ((l # pre) @ m # post) d = run (pre @ m # post) ?d1" for post
    by (simp add: 1)
  with d2 show ?case
    using details_line_fields [of l "take 1 (pre @ [m])" d] by auto
qed

lemma details_lines_takeWhile:
  "details_lines ls =
     takeWhile (\<lambda>l. l \<noteq> [] \<and> \<not> startswith l ''Date Stimulated'' \<and>
                    \<not> startswith l ''Type Treatment'') (map strip ls)"
  by (induction ls) (simp_all add: Let_def)

text \<open>
  Claim C3. Let the first line containing \<^verbatim>\<open>Details\<close> be \<open>m\<close>, after the lines \<open>pre\<close> and
  before the lines \<open>post\<close>. The extraction returns a record whose \<open>proppant_details\<close> is
  the trimmed lines of \<open>post\<close> up to the first one that is empty or begins with
  \<^verbatim>\<open>Date Stimulated\<close> or \<^verbatim>\<open>Type Treatment\<close>, joined by newlines, and unset when there is no
  such line. The scan ends there: a document that differs only after the line that
  follows \<open>m\<close> yields the same record up to \<open>proppant_details\<close>, so no later marker and no
  later \<^verbatim>\<open>Details\<close> block is processed.
\<close>

theorem details_block_ends_scan:
  assumes "splitlines text = pre @ m # post"
    and "splitlines text' = pre @ m # post'"
    and "take 1 post' = take 1 post"
    and "\<forall>l\<in>set pre. \<not> contains ''Details'' (strip l)"
    and "contains ''Details'' (strip m)"
  shows "\<exists>r r'. parse_stimulation_data text = Inr r \<and> parse_stimulation_data text' = Inr r' \<and>
     proppant_details r =
       (let ds = takeWhile (\<lambda>l. l \<noteq> [] \<and> \<not> startswith l ''Date Stimulated'' \<and>
                               \<not> startswith l ''Type Treatment'') (map strip post)
        in if ds = [] then None else Some (join [CHR 0x0A] ds)) \<and>
     r'\<lparr>proppant_details := proppant_details r\<rparr> = r"
proof -
  from run_details [OF assms(4,5), of empty_stim "take 1 post"] obtain d2 where
    d2: "proppant_details d2 = proppant_details empty_stim"
    "\<forall>p. take 1 p = take 1 post \<longrightarrow> run (pre @ m # p) empty_stim = details_upd p d2"
    by blast
  from d2(2) have r: "run (pre @ m # post) empty_stim = details_upd post d2" by simp
  from d2(2) assms(3) have r': "run (pre @ m # post') empty_stim = details_upd post' d2" by simp
  have "proppant_details d2 = None" using d2(1) by (simp add: empty_stim_def)
  then have "proppant_details (details_upd post d2) =
       (let ds = takeWhile (\<lambda>l. l \<noteq> [] \<and> \<not> startswith l ''Date Stimulated'' \<and>
                               \<not> startswith l ''Type Treatment'') (map strip post)
        in if ds = [] then None else Some (join [CHR 0x0A] ds))"
    by (simp add: details_upd_def details_lines_takeWhile Let_def)
  moreover have "(details_upd post' d2)\<lparr>proppant_details := proppant_details (details_upd post d2)\<rparr> =
      details_upd post d2"
    by (simp add: details_upd_def)
  ultimately show ?thesis
    by (simp add: parse_stimulation_data_run assms(1,2) r r')
qed

text \<open>
  Claim C3, witness: a \<^verbatim>\<open>Details\<close> line, two lines, a blank line, then a second \<^verbatim>\<open>Details\<close>
  block and a \<^verbatim>\<open>Date Stimulated\<close> block. The two lines are captured and nothing after the
  blank line is: the record is that of the document cut after the first detail line, but
  for \<open>proppant_details\<close>.
\<close>

theorem details_block_ends_scan_witness:
  "splitlines ''x Details\<newline> abc \<newline>def\<newline>\<newline>Details\<newline>ghi\<newline>Date Stimulated\<newline>06/09/2015 Three Forks Second Bench 11185 20754 50 I 126978 Barrels'' =
     [''x Details'', '' abc '', ''def'', [], ''Details'', ''ghi'', ''Date Stimulated'',
      ''06/09/2015 Three Forks Second Bench 11185 20754 50 I 126978 Barrels''] \<and>
   splitlines ''x Details\<newline> abc '' = [''x Details'', '' abc ''] \<and>
   contains ''Details'' (strip ''x Details'') \<and>
   parse_stimulation_data ''x Details\<newline> abc \<newline>def\<newline>\<newline>Details\<newline>ghi\<newline>Date Stimulated\<newline>06/09/2015 Three Forks Second Bench 11185 20754 50 I 126978 Barrels'' =
     Inr (empty_stim\<lparr>proppant_details := Some ''abc\<newline>def''\<rparr>) \<and>
   parse_stimulation_data ''x Details\<newline> abc '' =
     Inr (empty_stim\<lparr>proppant_details := Some ''abc''\<rparr>)"
proof -
  let ?ex = "''06/09/2015 Three Forks Second Bench 11185 20754 50 I 126978 Barrels''"
  let ?post = "['' abc '', ''def'', [], ''Details'', ''ghi'', ''Date Stimulated'', ?ex]"
  let ?doc = "''x Details\<newline> abc \<newline>def\<newline>\<newline>Details\<newline>ghi\<newline>Date Stimulated\<newline>06/09/2015 Three Forks Second Bench 11185 20754 50 I 126978 Barrels''"
  have h1: "splitlines ?doc = [] @ ''x Details'' # ?post"
    by (simp add: splitlines_def cls)
  have h2: "splitlines ''x Details\<newline> abc '' = [] @ ''x Details'' # ['' abc '']"
    by (simp add: splitlines_def cls)
  have h3: "take 1 ['' abc ''] = take 1 ?post" by simp
  have h4: "\<forall>l\<in>set []. \<not> contains ''Details'' (strip l)" by simp
  have s: "strip ''x Details'' = ''x Details''" "strip '' abc '' = ''abc''"
    "strip ''def'' = ''def''" "strip [] = []"
    by (simp_all add: strip_def cls)
  have h5: "contains ''Details'' (strip ''x Details'')" by (simp add: s)
  have short: "parse_stimulation_data ''x Details\<newline> abc '' =
     Inr (empty_stim\<lparr>proppant_details := Some ''abc''\<rparr>)"
    by (simp add: parse_stimulation_data_run h2 s line_fields_def details_upd_def
        startswith_def Let_def)
  from details_block_ends_scan [OF h1 h2 h3 h4 h5] obtain r where
    "parse_stimulation_data ?doc = Inr r"
    "proppant_details r = Some ''abc\<newline>def''"
    "(empty_stim\<lparr>proppant_details := Some ''abc''\<rparr>)\<lparr>proppant_details := proppant_details r\<rparr> = r"
    by (auto simp: short s startswith_def Let_def)
  then have "parse_stimulation_data ?doc = Inr (empty_stim\<lparr>proppant_details := Some ''abc\<newline>def''\<rparr>)"
    by auto
  with h1 h2 h5 short show ?thesis by simp
qed

subsection \<open>Literals\<close>

lemma lower_ascii:
  "lower (CHR 0x0A) = CHR 0x0A" "lower (CHR 0x09) = CHR 0x09" "lower (CHR '' '') = CHR '' ''"
  "lower (CHR ''!'') = CHR ''!''" "lower (CHR 0x22) = CHR 0x22"
  "lower (CHR ''#'') = CHR ''#''" "lower (CHR ''$'') = CHR ''$''"
  "lower (CHR ''%'') = CHR ''%''" "lower (CHR ''&'') = CHR ''&''"
  "lower (CHR 0x27) = CHR 0x27" "lower (CHR ''('') = CHR ''(''"
  "lower (CHR '')'') = CHR '')''" "lower (CHR ''*'') = CHR ''*''"
  "lower (CHR ''+'') = CHR ''+''" "lower (CHR '','') = CHR '',''"
  "lower (CHR ''-'') = CHR ''-''" "lower (CHR ''.'') = CHR ''.''"
  "lower (CHR ''/'') = CHR ''/''" "lower (CHR ''0'') = CHR ''0''"
  "lower (CHR ''1'') = CHR ''1''" "lower (CHR ''2'') = CHR ''2''"
  "lower (CHR ''3'') = CHR ''3''" "lower (CHR ''4'') = CHR ''4''"
  "lower (CHR ''5'') = CHR ''5''" "lower (CHR ''6'') = CHR ''6''"
  "lower (CHR ''7'') = CHR ''7''" "lower (CHR ''8'') = CHR ''8''"
  "lower (CHR ''9'') = CHR ''9''" "lower (CHR '':'') = CHR '':''"
  "lower (CHR '';'') = CHR '';''" "lower (CHR ''<'') = CHR ''<''"
  "lower (CHR ''='') = CHR ''=''" "lower (CHR ''>'') = CHR ''>''"
  "lower (CHR ''?'') = CHR ''?''" "lower (CHR ''@'') = CHR ''@''"
  "lower (CHR ''A'') = CHR ''a''" "lower (CHR ''B'') = CHR ''b''"
  "lower (CHR ''C'') = CHR ''c''" "lower (CHR ''D'') = CHR ''d''"
  "lower (CHR ''E'') = CHR ''e''" "lower (CHR ''F'') = CHR ''f''"
  "lower (CHR ''G'') = CHR ''g''" "lower (CHR ''H'') = CHR ''h''"
  "lower (CHR ''I'') = CHR ''i''" "lower (CHR ''J'') = CHR ''j''"
  "lower (CHR ''K'') = CHR ''k''" "lower (CHR ''L'') = CHR ''l''"
  "lower (CHR ''M'') = CHR ''m''" "lower (CHR ''N'') = CHR ''n''"
  "lower (CHR ''O'') = CHR ''o''" "lower (CHR ''P'') = CHR ''p''"
  "lower (CHR ''Q'') = CHR ''q''" "lower (CHR ''R'') = CHR ''r''"
  "lower (CHR ''S'') = CHR ''s''" "lower (CHR ''T'') = CHR ''t''"
  "lower (CHR ''U'') = CHR ''u''" "lower (CHR ''V'') = CHR ''v''"
  "lower (CHR ''W'') = CHR ''w''" "lower (CHR ''X'') = CHR ''x''"
  "lower (CHR ''Y'') = CHR ''y''" "lower (CHR ''Z'') = CHR ''z''"
  "lower (CHR ''['') = CHR ''[''" "lower (CHR 0x5C) = CHR 0x5C"
  "lower (CHR '']'') = CHR '']''" "lower (CHR ''^'') = CHR ''^''"
  "lower (CHR ''_'') = CHR ''_''" "lower (CHR 0x60) = CHR 0x60"
  "lower (CHR ''a'') = CHR ''a''" "lower (CHR ''b'') = CHR ''b''"
  "lower (CHR ''c'') = CHR ''c''" "lower (CHR ''d'') = CHR ''d''"
  "lower (CHR ''e'') = CHR ''e''" "lower (CHR ''f'') = CHR ''f''"
  "lower (CHR ''g'') = CHR ''g''" "lower (CHR ''h'') = CHR ''h''"
  "lower (CHR ''i'') = CHR ''i''" "lower (CHR ''j'') = CHR ''j''"
  "lower (CHR ''k'') = CHR ''k''" "lower (CHR ''l'') = CHR ''l''"
  "lower (CHR ''m'') = CHR ''m''" "lower (CHR ''n'') = CHR ''n''"
  "lower (CHR ''o'') = CHR ''o''" "lower (CHR ''p'') = CHR ''p''"
  "lower (CHR ''q'') = CHR ''q''" "lower (CHR ''r'') = CHR ''r''"
  "lower (CHR ''s'') = CHR ''s''" "lower (CHR ''t'') = CHR ''t''"
  "lower (CHR ''u'') = CHR ''u''" "lower (CHR ''v'') = CHR ''v''"
  "lower (CHR ''w'') = CHR ''w''" "lower (CHR ''x'') = CHR ''x''"
  "lower (CHR ''y'') = CHR ''y''" "lower (CHR ''z'') = CHR ''z''"
  "lower (CHR ''{'') = CHR ''{''" "lower (CHR ''|'') = CHR ''|''"
  "lower (CHR ''}'') = CHR ''}''" "lower (CHR ''~'') = CHR ''~''"
  by (simp_all add: lower_def char_of_eq_iff)

lemma lit_match_ci: "lit_match True l s = Some s' \<longleftrightarrow>
   (length l \<le> length s \<and> ci_eq (take (length l) s) l \<and> s' = drop (length l) s)"
proof (induction l arbitrary: s)
  case Nil
  show ?case by (auto simp: ci_eq_def)
next
  case (Cons p ps)
  show ?case
  proof (cases s)
    case Nil
    then show ?thesis by simp
  next
    case (Cons c cs)
    with Cons.IH [of cs] show ?thesis by (auto simp: ci_eq_def chr_eq_def)
  qed
qed

lemma ci_eq_length: "ci_eq a b \<Longrightarrow> length a = length b"
  unfolding ci_eq_def by (rule map_eq_imp_length_eq)

lemma lit_match_ci_at: "lit_match True l (drop i t) \<noteq> None \<longleftrightarrow> ci_at l t i"
proof -
  have "lit_match True l (drop i t) \<noteq> None \<longleftrightarrow> (\<exists>s'. lit_match True l (drop i t) = Some s')"
    by auto
  also have "\<dots> \<longleftrightarrow> ci_at l t i"
    unfolding lit_match_ci ci_at_def using ci_eq_length [of "take (length l) (drop i t)" l]
    by auto
  finally show ?thesis .
qed

lemma lit_match_ci_append: "ci_eq h l \<Longrightarrow> lit_match True l (h @ s) = Some s"
  using ci_eq_length [of h l] by (simp add: lit_match_ci)

subsection \<open>Repetition\<close>

lemma rep_greedy_end:
  "\<forall>c\<in>set u. P c \<Longrightarrow> n \<le> length u \<Longrightarrow> k [] = Some v \<Longrightarrow> rep True n P u k = Some v"
proof (induction u arbitrary: n)
  case Nil
  then show ?case by simp
next
  case (Cons c u)
  show ?case
  proof (cases n)
    case 0
    from Cons.prems have "rep True 0 P u k = Some v" by (intro Cons.IH) simp_all
    with Cons.prems 0 show ?thesis by simp
  next
    case (Suc j)
    from Cons.prems Suc have "rep True j P u k = Some v" by (intro Cons.IH) simp_all
    with Cons.prems Suc show ?thesis by simp
  qed
qed

subsection \<open>Search\<close>

lemma re_search_here: "re_match ic r s = Some g \<Longrightarrow> re_search ic r s = Some g"
  by (cases s) simp_all

lemma re_search_skip_aux:
  "\<forall>j<length pre. re_match ic r (drop j (pre @ s)) = None \<Longrightarrow>
   re_search ic r (pre @ s) = re_search ic r s"
proof (induction pre)
  case Nil
  show ?case by simp
next
  case (Cons c pre)
  have "re_match ic r (drop 0 ((c # pre) @ s)) = None"
    using Cons.prems by (intro Cons.prems [rule_format]) simp
  then have 0: "re_match ic r (c # pre @ s) = None" by simp
  have "\<forall>j<length pre. re_match ic r (drop j (pre @ s)) = None"
  proof (intro allI impI)
    fix j assume "j < length pre"
    then have "Suc j < length (c # pre)" by simp
    then have "re_match ic r (drop (Suc j) ((c # pre) @ s)) = None"
      by (rule Cons.prems [rule_format])
    then show "re_match ic r (drop j (pre @ s)) = None" by simp
  qed
  then have "re_search ic r (pre @ s) = re_search ic r s" by (rule Cons.IH)
  with 0 show ?case by simp
qed

lemma re_search_skip:
  "t = pre @ s \<Longrightarrow> \<forall>j<length pre. re_match ic r (drop j t) = None \<Longrightarrow>
   re_search ic r t = re_search ic r s"
  using re_search_skip_aux [of pre ic r s] by blast

lemma re_search_none:
  "\<forall>j\<le>length s. re_match ic r (drop j s) = None \<Longrightarrow> re_search ic r s = None"
proof (induction s)
  case Nil
  have "re_match ic r (drop 0 []) = None" by (rule Nil.prems [rule_format]) simp
  then show ?case by simp
next
  case (Cons c s)
  have "re_match ic r (drop 0 (c # s)) = None" by (rule Cons.prems [rule_format]) simp
  then have 0: "re_match ic r (c # s) = None" by simp
  have "\<forall>j\<le>length s. re_match ic r (drop j s) = None"
  proof (intro allI impI)
    fix j assume "j \<le> length s"
    then have "Suc j \<le> length (c # s)" by simp
    then have "re_match ic r (drop (Suc j) (c # s)) = None"
      by (rule Cons.prems [rule_format])
    then show "re_match ic r (drop j s) = None" by simp
  qed
  then have "re_search ic r s = None" by (rule Cons.IH)
  with 0 show ?case by simp
qed

subsection \<open>Section isolation\<close>

lemma section_match:
  "re_match True section_pattern s =
     (case lit_match True ''Well Information'' s of
        Some s' \<Rightarrow> Some (no_groups(1 \<mapsto> s'))
      | None \<Rightarrow>
          (case lit_match True ''WELL DATA SUMMARY'' s of
             Some s' \<Rightarrow> Some (no_groups(1 \<mapsto> s'))
           | None \<Rightarrow> None))"
proof -
  have "rep True 0 any_char s' (\<lambda>s''. Some (no_groups(1 \<mapsto> take (length s' - length s'') s'))) =
      Some (no_groups(1 \<mapsto> s'))" for s'
    by (rule rep_greedy_end) (simp_all add: any_char_def)
  then show ?thesis
    by (simp add: re_match_def section_pattern_def split: option.split)
qed

lemma section_match_None: "re_match True section_pattern (drop i t) = None \<longleftrightarrow> \<not> header_at t i"
proof -
  have "re_match True section_pattern (drop i t) = None \<longleftrightarrow>
      \<not> (lit_match True ''Well Information'' (drop i t) \<noteq> None \<or>
         lit_match True ''WELL DATA SUMMARY'' (drop i t) \<noteq> None)"
    unfolding section_match by (auto split: option.splits)
  then show ?thesis unfolding lit_match_ci_at header_at_def .
qed

lemma lower_headers_differ:
  "take (length ''Well Information'') (map lower ''WELL DATA SUMMARY'') \<noteq>
   map lower ''Well Information''"
  by (simp add: lower_ascii)

lemma ci_headers_differ:
  assumes "ci_eq h ''WELL DATA SUMMARY''"
  shows "lit_match True ''Well Information'' (h @ s) = None"
proof (rule ccontr)
  define n where "n = length ''Well Information''"
  assume "lit_match True ''Well Information'' (h @ s) \<noteq> None"
  then obtain s' where "lit_match True ''Well Information'' (h @ s) = Some s'" by auto
  then have 1: "ci_eq (take n (h @ s)) ''Well Information''"
    unfolding lit_match_ci n_def by blast
  from assms have "length h = length ''WELL DATA SUMMARY''" by (rule ci_eq_length)
  then have "n \<le> length h" by (simp add: n_def)
  then have 2: "take n (h @ s) = take n h" by simp
  from 1 have "map lower (take n h) = map lower ''Well Information''"
    unfolding 2 ci_eq_def .
  then have "take n (map lower h) = map lower ''Well Information''"
    by (simp only: take_map)
  moreover from assms have "map lower h = map lower ''WELL DATA SUMMARY''"
    by (simp only: ci_eq_def)
  ultimately have "take n (map lower ''WELL DATA SUMMARY'') = map lower ''Well Information''"
    by simp
  then show False using lower_headers_differ unfolding n_def by blast
qed

lemma section_text_header:
  assumes "text = pre @ h @ post"
    and "ci_eq h ''Well Information'' \<or> ci_eq h ''WELL DATA SUMMARY''"
    and "\<forall>j<length pre. \<not> header_at text j"
  shows "section_text text = Some post"
proof -
  from assms(3) have "\<forall>j<length pre. re_match True section_pattern (drop j text) = None"
    by (simp add: section_match_None)
  with assms(1) have 1:
    "re_search True section_pattern text = re_search True section_pattern (h @ post)"
    by (rule re_search_skip)
  have "re_match True section_pattern (h @ post) = Some (no_groups(1 \<mapsto> post))"
    using assms(2)
  proof
    assume "ci_eq h ''Well Information''"
    then show ?thesis by (simp add: section_match lit_match_ci_append)
  next
    assume "ci_eq h ''WELL DATA SUMMARY''"
    then show ?thesis by (simp add: section_match lit_match_ci_append ci_headers_differ)
  qed
  then have "re_search True section_pattern (h @ post) = Some (no_groups(1 \<mapsto> post))"
    by (rule re_search_here)
  with 1 show ?thesis by (simp add: section_text_def)
qed

lemma section_text_no_header:
  assumes "\<forall>j. \<not> header_at text j"
  shows "section_text text = Some text"
proof -
  from assms have "\<forall>j\<le>length text. re_match True section_pattern (drop j text) = None"
    by (simp add: section_match_None)
  then have "re_search True section_pattern text = None" by (rule re_search_none)
  then show ?thesis by (simp add: section_text_def)
qed

text \<open>
  Claim C5. When \<open>h\<close> is the first occurrence in the text, up to the case of its letters,
  of \<^verbatim>\<open>Well Information\<close> or \<^verbatim>\<open>WELL DATA SUMMARY\<close>, section isolation returns exactly the text
  after \<open>h\<close>, and so nothing of what precedes the header; when neither header occurs
  anywhere in the text, it returns the text unchanged.
\<close>

theorem section_isolation:
  "(text = pre @ h @ post \<and> (ci_eq h ''Well Information'' \<or> ci_eq h ''WELL DATA SUMMARY'') \<and>
    (\<forall>j<length pre. \<not> header_at text j) \<longrightarrow> section_text text = Some post) \<and>
   ((\<forall>j. \<not> header_at text j) \<longrightarrow> section_text text = Some text)"
proof (intro conjI impI)
  assume "text = pre @ h @ post \<and>
    (ci_eq h ''Well Information'' \<or> ci_eq h ''WELL DATA SUMMARY'') \<and>
    (\<forall>j<length pre. \<not> header_at text j)"
  then show "section_text text = Some post" using section_text_header [of _ pre h post] by blast
next
  assume "\<forall>j. \<not> header_at text j"
  then show "section_text text = Some text" by (rule section_text_no_header)
qed

text \<open>
  Claim C5, witness: a header in mixed case after three characters, and a text without
  header.
\<close>

theorem section_isolation_witness:
  "''xx wEll inFormation yy'' = ''xx '' @ ''wEll inFormation'' @ '' yy'' \<and>
   ci_eq ''wEll inFormation'' ''Well Information'' \<and>
   \<not> header_at ''xx wEll inFormation yy'' 0 \<and> \<not> header_at ''xx wEll inFormation yy'' 1 \<and>
   \<not> header_at ''xx wEll inFormation yy'' 2 \<and>
   section_text ''xx wEll inFormation yy'' = Some '' yy'' \<and>
   section_text ''abc'' = Some ''abc''"
proof -
  let ?t = "''xx wEll inFormation yy''"
  have h1: "?t = ''xx '' @ ''wEll inFormation'' @ '' yy''" by simp
  have h2: "ci_eq ''wEll inFormation'' ''Well Information''"
    by (simp add: ci_eq_def lower_ascii)
  have h3: "\<not> header_at ?t 0" "\<not> header_at ?t 1" "\<not> header_at ?t 2"
    by (simp_all add: header_at_def ci_at_def ci_eq_def lower_ascii)
  have "j < length ''xx '' \<Longrightarrow> j = 0 \<or> j = 1 \<or> j = 2" for j by auto
  with h3 have h4: "\<forall>j<length ''xx ''. \<not> header_at ?t j" by blast
  have h5: "\<forall>j. \<not> header_at ''abc'' j"
    by (auto simp: header_at_def ci_at_def dest!: ci_eq_length)
  from section_isolation [of ?t "''xx ''" "''wEll inFormation''" "'' yy''"] h1 h2 h4
  have 1: "section_text ?t = Some '' yy''" by blast
  from section_isolation [of "''abc''"] h5
  have 2: "section_text ''abc'' = Some ''abc''" by blast
  from h1 h2 h3 1 2 show ?thesis by blast
qed

subsection \<open>Well information: the extraction never fails\<close>

lemma section_text_Some: "\<exists>s. section_text text = Some s"
proof (cases "re_search True section_pattern text")
  case None
  then show ?thesis by (simp add: section_text_def)
next
  case (Some g)
  have "1 \<in> must section_pattern" by (simp add: section_pattern_def)
  with Some have "g 1 \<noteq> None" by (rule re_search_must)
  with Some show ?thesis by (auto simp: section_text_def)
qed

lemma match_and_set_eq:
  assumes "1 \<in> must pat"
  shows "match_and_set (Some s) pat key w =
     Inr (case field pat s of None \<Rightarrow> w | Some v \<Rightarrow> key (\<lambda>_. Some v) w)"
proof (cases "re_search True pat s")
  case None
  then show ?thesis by (simp add: match_and_set_def field_def)
next
  case (Some g)
  from Some assms have "g 1 \<noteq> None" by (rule re_search_must)
  then obtain v where "g 1 = Some v" by auto
  with Some show ?thesis by (simp add: match_and_set_def field_def bind_def group_strip_def)
qed

lemma must_well_patterns:
  "1 \<in> must operator_pattern" "1 \<in> must api_pattern" "1 \<in> must well_name_pattern"
  "1 \<in> must enseco_job_pattern" "1 \<in> must job_type_pattern"
  "1 \<in> must county_state_pattern" "1 \<in> must shl_pattern" "1 \<in> must latitude_pattern"
  "1 \<in> must longitude_pattern" "1 \<in> must datum_pattern"
  by (simp_all add: operator_pattern_def api_pattern_def well_name_pattern_def
      enseco_job_pattern_def job_type_pattern_def county_state_pattern_def shl_pattern_def
      latitude_pattern_def longitude_pattern_def datum_pattern_def)

lemma match_and_set_unset:
  "1 \<in> must pat \<Longrightarrow> operator w = None \<Longrightarrow>
   match_and_set (Some s) pat operator_update w = Inr (w\<lparr>operator := field pat s\<rparr>)"
  "1 \<in> must pat \<Longrightarrow> api_number w = None \<Longrightarrow>
   match_and_set (Some s) pat api_number_update w = Inr (w\<lparr>api_number := field pat s\<rparr>)"
  "1 \<in> must pat \<Longrightarrow> well_name w = None \<Longrightarrow>
   match_and_set (Some s) pat well_name_update w = Inr (w\<lparr>well_name := field pat s\<rparr>)"
  "1 \<in> must pat \<Longrightarrow> enseco_job_number w = None \<Longrightarrow>
   match_and_set (Some s) pat enseco_job_number_update w = Inr (w\<lparr>enseco_job_number := field pat s\<rparr>)"
  "1 \<in> must pat \<Longrightarrow> job_type w = None \<Longrightarrow>
   match_and_set (Some s) pat job_type_update w = Inr (w\<lparr>job_type := field pat s\<rparr>)"
  "1 \<in> must pat \<Longrightarrow> county_state w = None \<Longrightarrow>
   match_and_set (Some s) pat county_state_update w = Inr (w\<lparr>county_state := field pat s\<rparr>)"
  "1 \<in> must pat \<Longrightarrow> well_shl w = None \<Longrightarrow>
   match_and_set (Some s) pat well_shl_update w = Inr (w\<lparr>well_shl := field pat s\<rparr>)"
  "1 \<in> must pat \<Longrightarrow> latitude w = None \<Longrightarrow>
   match_and_set (Some s) pat latitude_update w = Inr (w\<lparr>latitude := field pat s\<rparr>)"
  "1 \<in> must pat \<Longrightarrow> longitude w = None \<Longrightarrow>
   match_and_set (Some s) pat longitude_update w = Inr (w\<lparr>longitude := field pat s\<rparr>)"
  "1 \<in> must pat \<Longrightarrow> datum w = None \<Longrightarrow>
   match_and_set (Some s) pat datum_update w = Inr (w\<lparr>datum := field pat s\<rparr>)"
  by (cases w; cases "field pat s"; simp add: match_and_set_eq)+

lemmas match_and_set_well =
  match_and_set_unset(1) [OF must_well_patterns(1)]
  match_and_set_unset(2) [OF must_well_patterns(2)]
  match_and_set_unset(3) [OF must_well_patterns(3)]
  match_and_set_unset(4) [OF must_well_patterns(4)]
  match_and_set_unset(5) [OF must_well_patterns(5)]
  match_and_set_unset(6) [OF must_well_patterns(6)]
  match_and_set_unset(7) [OF must_well_patterns(7)]
  match_and_set_unset(8) [OF must_well_patterns(8)]
  match_and_set_unset(9) [OF must_well_patterns(9)]
  match_and_set_unset(10) [OF must_well_patterns(10)]

lemma parse_well_info_eq:
  assumes "section_text text = Some s"
  shows "parse_well_info text = Inr (well_fields s)"
  by (simp add: parse_well_info_def assms match_and_set_well bind_def empty_well_def
      well_fields_def Let_def)

subsection \<open>What a match consumes\<close>

lemma lit_match_split:
  "lit_match ic l s = Some s' \<Longrightarrow> \<exists>h. s = h @ s' \<and> list_all2 (chr_eq ic) l h"
proof (induction l arbitrary: s)
  case Nil
  then show ?case by simp
next
  case (Cons p ps)
  from Cons.prems obtain c cs where s: "s = c # cs" by (cases s) auto
  with Cons.prems have c: "chr_eq ic p c" and "lit_match ic ps cs = Some s'"
    by (auto split: if_splits)
  from Cons.IH [OF this(2)] obtain h where "cs = h @ s'" "list_all2 (chr_eq ic) ps h" by blast
  with s c have "s = (c # h) @ s'" "list_all2 (chr_eq ic) (p # ps) (c # h)" by simp_all
  then show ?case by blast
qed

lemma rep_split: "rep greedy n P s k = Some v \<Longrightarrow> \<exists>u s'. s = u @ s' \<and> k s' = Some v"
proof (induction greedy n P s k rule: rep.induct)
  case (1 greedy n P k)
  then show ?case by simp
next
  case (2 greedy n P c cs k)
  then have "P c" and "rep greedy n P cs k = Some v" by (auto split: if_splits)
  with 2 obtain u s' where "cs = u @ s'" "k s' = Some v" by blast
  then show ?case by (intro exI [of _ "c # u"] exI [of _ s']) simp
next
  case (3 greedy P k)
  then show ?case by (intro exI [of _ "[]"]) simp
next
  case (4 greedy P c cs k)
  show ?case
  proof (cases "k (c # cs) = Some v")
    case True
    then show ?thesis by (intro exI [of _ "[]"] exI [of _ "c # cs"]) simp
  next
    case False
    with 4(3) have "P c" and "rep greedy 0 P cs k = Some v"
      and "\<not> greedy \<Longrightarrow> k (c # cs) = None"
      by (auto split: if_splits option.splits)
    with 4(1,2) obtain u s' where "cs = u @ s'" "k s' = Some v"
      by (cases greedy) auto
    then show ?thesis by (intro exI [of _ "c # u"] exI [of _ s']) simp
  qed
qed

lemma caseless_in_lit:
  assumes "caseless c" and "list_all2 (chr_eq ic) l h" and "c \<in> set l"
  shows "c \<in> set h"
proof -
  from assms(3) obtain i where i: "i < length l" "l ! i = c" by (auto simp: in_set_conv_nth)
  with assms(2) have "chr_eq ic c (h ! i)" and "i < length h"
    by (auto simp: list_all2_conv_all_nth)
  with assms(1) have "h ! i = c" by (auto simp: chr_eq_def caseless_def split: if_splits)
  with \<open>i < length h\<close> show ?thesis by (auto simp: in_set_conv_nth)
qed

lemma ms_needs:
  assumes "caseless c"
  shows "ms ic r s g k = Some v \<Longrightarrow>
    \<exists>u s' g'. s = u @ s' \<and> k s' g' = Some v \<and> (needs c r \<longrightarrow> c \<in> set u)"
proof (induction r arbitrary: s g k v)
  case (Lit l)
  then obtain s' where 1: "lit_match ic l s = Some s'" "k s' g = Some v"
    by (auto split: option.splits)
  from lit_match_split [OF 1(1)] obtain h where h: "s = h @ s'" "list_all2 (chr_eq ic) l h"
    by blast
  then have "needs c (Lit l) \<longrightarrow> c \<in> set h" using caseless_in_lit [OF assms] by auto
  with h(1) 1(2) show ?case by blast
next
  case (One P)
  then obtain x cs where "s = [x] @ cs" "k cs g = Some v"
    by (auto split: list.splits if_splits)
  then show ?case by (intro exI [of _ "[x]"] exI [of _ cs] exI [of _ g]) simp
next
  case (Rep greedy n P)
  then have "rep greedy n P s (\<lambda>s'. k s' g) = Some v" by simp
  from rep_split [OF this] show ?case by auto
next
  case (Seq a b)
  from Seq.prems have "ms ic a s g (\<lambda>s' g'. ms ic b s' g' k) = Some v" by simp
  from Seq.IH(1) [OF this] obtain u1 s1 g1 where
    1: "s = u1 @ s1" "ms ic b s1 g1 k = Some v" "needs c a \<longrightarrow> c \<in> set u1" by blast
  from Seq.IH(2) [OF 1(2)] obtain u2 s2 g2 where
    2: "s1 = u2 @ s2" "k s2 g2 = Some v" "needs c b \<longrightarrow> c \<in> set u2" by blast
  from 1 2 have "s = (u1 @ u2) @ s2" "needs c (Seq a b) \<longrightarrow> c \<in> set (u1 @ u2)" by auto
  with 2(2) show ?case by blast
next
  case (Alt a b)
  show ?case
  proof (cases "ms ic a s g k")
    case None
    with Alt.prems have "ms ic b s g k = Some v" by simp
    from Alt.IH(2) [OF this] show ?thesis by auto
  next
    case (Some w)
    with Alt.prems have "ms ic a s g k = Some v" by simp
    from Alt.IH(1) [OF this] show ?thesis by auto
  qed
next
  case (Grp n a)
  from Grp.prems have
    "ms ic a s g (\<lambda>s' g'. k s' (g'(n \<mapsto> take (length s - length s') s))) = Some v" by simp
  from Grp.IH [OF this] obtain u s1 g1 where
    "s = u @ s1" "k s1 (g1(n \<mapsto> take (length s - length s1) s)) = Some v"
    "needs c a \<longrightarrow> c \<in> set u" by blast
  then show ?case by (intro exI [of _ u] exI [of _ s1]) auto
qed

lemma re_match_needs:
  "caseless c \<Longrightarrow> needs c r \<Longrightarrow> re_match ic r s = Some g \<Longrightarrow> c \<in> set s"
  unfolding re_match_def by (drule ms_needs) auto

lemma re_search_needs:
  "caseless c \<Longrightarrow> needs c r \<Longrightarrow> re_search ic r s = Some g \<Longrightarrow> c \<in> set s"
proof (induction s)
  case Nil
  then show ?case using re_match_needs [of c r ic "[]" g] by simp
next
  case (Cons x s)
  show ?case
  proof (cases "re_match ic r (x # s)")
    case None
    with Cons show ?thesis by simp
  next
    case (Some g')
    with Cons.prems show ?thesis using re_match_needs [of c r ic "x # s" g'] by simp
  qed
qed

lemma colon_caseless: "caseless CHR '':''"
proof -
  have "x = CHR '':''" if "lower x = CHR '':''" for x
  proof (rule ccontr)
    assume neq: "x \<noteq> CHR '':''"
    with that have up: "(65 \<le> (of_char x :: nat) \<and> (of_char x :: nat) \<le> 90) \<or>
        (192 \<le> (of_char x :: nat) \<and> (of_char x :: nat) \<le> 222 \<and> (of_char x :: nat) \<noteq> 215)"
      and "char_of ((of_char x :: nat) + 32) = CHR '':''"
      by (auto simp: lower_def Let_def split: if_splits)
    then have "(of_char (char_of ((of_char x :: nat) + 32) :: char) :: nat) = of_char CHR '':''"
      by simp
    then have 1: "((of_char x :: nat) + 32) mod 256 = 58" by (simp add: of_char_of)
    from up have "(of_char x :: nat) + 32 < 256" by linarith
    with 1 have "(of_char x :: nat) + 32 = 58" by simp
    with up show False by linarith
  qed
  then show ?thesis by (simp add: caseless_def lower_ascii)
qed

lemma needs_colon:
  "needs CHR '':'' operator_pattern" "needs CHR '':'' api_pattern"
  "needs CHR '':'' well_name_pattern" "needs CHR '':'' enseco_job_pattern"
  "needs CHR '':'' job_type_pattern" "needs CHR '':'' county_state_pattern"
  "needs CHR '':'' shl_pattern" "needs CHR '':'' latitude_pattern"
  "needs CHR '':'' longitude_pattern" "needs CHR '':'' datum_pattern"
  by (simp_all add: operator_pattern_def api_pattern_def well_name_pattern_def
      enseco_job_pattern_def job_type_pattern_def county_state_pattern_def shl_pattern_def
      latitude_pattern_def longitude_pattern_def datum_pattern_def)

lemma field_needs: "caseless c \<Longrightarrow> needs c pat \<Longrightarrow> c \<notin> set s \<Longrightarrow> field pat s = None"
  using re_search_needs [of c pat True s] by (auto simp: field_def split: option.splits)

lemma well_fields_no_colon: "CHR '':'' \<notin> set s \<Longrightarrow> well_fields s = empty_well"
  by (simp add: well_fields_def empty_well_def needs_colon [THEN field_needs [OF colon_caseless]])

lemma re_search_SomeD:
  "re_search ic r s = Some g \<Longrightarrow> \<exists>j. re_match ic r (drop j s) = Some g"
proof (induction s)
  case Nil
  then have "re_match ic r (drop 0 []) = Some g" by simp
  then show ?case by blast
next
  case (Cons x s)
  show ?case
  proof (cases "re_match ic r (x # s)")
    case None
    with Cons obtain j where "re_match ic r (drop (Suc j) (x # s)) = Some g" by auto
    then show ?thesis by blast
  next
    case (Some g')
    with Cons.prems have "re_match ic r (drop 0 (x # s)) = Some g" by simp
    then show ?thesis by blast
  qed
qed

lemma section_text_drop: "\<exists>n. section_text text = Some (drop n text)"
proof (cases "re_search True section_pattern text")
  case None
  then have "section_text text = Some (drop 0 text)" by (simp add: section_text_def)
  then show ?thesis by blast
next
  case (Some g)
  from re_search_SomeD [OF Some] obtain j where
    "re_match True section_pattern (drop j text) = Some g" by blast
  then obtain l s' where "lit_match True l (drop j text) = Some s'" "g = no_groups(1 \<mapsto> s')"
    unfolding section_match by (auto split: option.splits)
  then have "g 1 = Some (drop (length l + j) text)" by (simp add: lit_match_ci)
  with Some have "section_text text = Some (drop (length l + j) text)"
    by (simp add: section_text_def)
  then show ?thesis by blast
qed

lemma parse_well_info_total: "\<exists>n. parse_well_info text = Inr (well_fields (drop n text))"
  using section_text_drop [of "text"] parse_well_info_eq by blast

lemma parse_well_info_no_colon:
  assumes "CHR '':'' \<notin> set text"
  shows "parse_well_info text = Inr empty_well"
proof -
  from parse_well_info_total obtain n where n: "parse_well_info text = Inr (well_fields (drop n text))"
    by blast
  from assms have "CHR '':'' \<notin> set (drop n text)" by (auto dest: in_set_dropD)
  with n show ?thesis by (simp add: well_fields_no_colon)
qed

subsection \<open>Stimulation data: a text without marker\<close>

lemma run_no_marker:
  "\<forall>l\<in>set ls. \<not> contains ''Date Stimulated'' (strip l) \<and>
      \<not> contains ''Type Treatment'' (strip l) \<and> \<not> contains ''Details'' (strip l) \<Longrightarrow>
   run ls d = d"
  by (induction ls) (simp_all add: line_fields_def)

text \<open>
  Claim C7. For every input text both extraction functions return a record, not an error:
  no index is out of range, no group of a match is missing, and a date that does not
  parse is caught. The records have their ten and thirteen fields by construction, each
  holding a value or unset. A text without a colon, which no label of the well patterns
  can match, gives the well record with every field unset, and a text with none of the
  three markers on any line gives the stimulation record with every field unset.
\<close>

theorem extraction_never_fails:
  "(\<exists>w. parse_well_info text = Inr w \<and> (CHR '':'' \<notin> set text \<longrightarrow> w = empty_well)) \<and>
   (\<exists>d. parse_stimulation_data text = Inr d \<and>
      ((\<forall>l\<in>set (splitlines text). \<not> contains ''Date Stimulated'' (strip l) \<and>
          \<not> contains ''Type Treatment'' (strip l) \<and> \<not> contains ''Details'' (strip l)) \<longrightarrow>
       d = empty_stim))"
proof (intro conjI)
  show "\<exists>w. parse_well_info text = Inr w \<and> (CHR '':'' \<notin> set text \<longrightarrow> w = empty_well)"
    using parse_well_info_total [of "text"] parse_well_info_no_colon [of "text"] by auto
  show "\<exists>d. parse_stimulation_data text = Inr d \<and>
      ((\<forall>l\<in>set (splitlines text). \<not> contains ''Date Stimulated'' (strip l) \<and>
          \<not> contains ''Type Treatment'' (strip l) \<and> \<not> contains ''Details'' (strip l)) \<longrightarrow>
       d = empty_stim)"
    using run_no_marker [of "splitlines text" empty_stim]
    by (simp add: parse_stimulation_data_run)
qed

text \<open>
  Claim C7, witness: a text of two lines without colon and without marker gives the two
  records with every field unset.
\<close>

theorem extraction_never_fails_witness:
  "CHR '':'' \<notin> set ''Scanned page\<newline>no data'' \<and>
   splitlines ''Scanned page\<newline>no data'' = [''Scanned page'', ''no data''] \<and>
   \<not> contains ''Date Stimulated'' (strip ''Scanned page'') \<and>
   \<not> contains ''Type Treatment'' (strip ''Scanned page'') \<and>
   \<not> contains ''Details'' (strip ''Scanned page'') \<and>
   \<not> contains ''Date Stimulated'' (strip ''no data'') \<and>
   \<not> contains ''Type Treatment'' (strip ''no data'') \<and>
   \<not> contains ''Details'' (strip ''no data'') \<and>
   parse_well_info ''Scanned page\<newline>no data'' = Inr empty_well \<and>
   parse_stimulation_data ''Scanned page\<newline>no data'' = Inr empty_stim"
proof -
  let ?t = "''Scanned page\<newline>no data''"
  have h1: "CHR '':'' \<notin> set ?t" by simp
  have h2: "splitlines ?t = [''Scanned page'', ''no data'']" by (simp add: splitlines_def cls)
  have s: "strip ''Scanned page'' = ''Scanned page''" "strip ''no data'' = ''no data''"
    by (simp_all add: strip_def cls)
  have h3: "\<not> contains ''Date Stimulated'' (strip ''Scanned page'')"
    "\<not> contains ''Type Treatment'' (strip ''Scanned page'')"
    "\<not> contains ''Details'' (strip ''Scanned page'')"
    "\<not> contains ''Date Stimulated'' (strip ''no data'')"
    "\<not> contains ''Type Treatment'' (strip ''no data'')"
    "\<not> contains ''Details'' (strip ''no data'')"
    by (simp_all add: s)
  from extraction_never_fails [of ?t] h1 h2 h3
  have "parse_well_info ?t = Inr empty_well \<and> parse_stimulation_data ?t = Inr empty_stim"
    by auto
  with h1 h2 h3 show ?thesis by blast
qed

subsection \<open>Several marker blocks\<close>

lemma date_line_second_example:
  "\<exists>g. re_match False date_line_pattern ''07/15/2016 Bakken 9000 9500 30 I 5000 Gallons'' =
          Some g \<and>
       g 1 = Some ''07/15/2016'' \<and> g 2 = Some ''Bakken'' \<and> g 3 = Some ''9000'' \<and>
       g 4 = Some ''9500'' \<and> g 5 = Some ''30'' \<and> g 6 = Some ''5000'' \<and>
       g 7 = Some ''Gallons''"
  by (simp add: re_match_def date_line_pattern_def no_groups_def chr_eq_def cls)

lemma normalize_date_second_example:
  "g 1 = Some ''07/15/2016'' \<Longrightarrow> normalize_date g = Some ''2016-07-15''"
  by (simp add: normalize_date_def group_strip_def bind_def date_eval cls)

lemma date_fields_second_example:
  "date_fields ''07/15/2016 Bakken 9000 9500 30 I 5000 Gallons'' d =
     d\<lparr>date_stimulated := Some ''2016-07-15'', stimulated_formation := Some ''Bakken'',
       top_depth := Some ''9000'', bottom_depth := Some ''9500'',
       stimulation_stages := Some ''30'', volume := Some ''5000'',
       volume_units := Some ''Gallons''\<rparr>"
proof -
  from date_line_second_example obtain g where
    "re_match False date_line_pattern ''07/15/2016 Bakken 9000 9500 30 I 5000 Gallons'' = Some g"
    "g 1 = Some ''07/15/2016''" "g 2 = Some ''Bakken''" "g 3 = Some ''9000''"
    "g 4 = Some ''9500''" "g 5 = Some ''30''" "g 6 = Some ''5000''" "g 7 = Some ''Gallons''"
    by blast
  then show ?thesis
    by (simp add: date_fields_def normalize_date_second_example strip_def cls)
qed

text \<open>
  Claim C8, the code at the failing input. The document holds two \<^verbatim>\<open>Date Stimulated\<close>
  blocks and no \<^verbatim>\<open>Details\<close> line. The first block alone yields the record of the first
  episode; the whole document yields the fields of the second block: the later block
  overwrites the earlier one.
\<close>

theorem later_block_overwrites:
  "parse_stimulation_data
     ''Date Stimulated\<newline>06/09/2015 Three Forks Second Bench 11185 20754 50 I 126978 Barrels'' =
     Inr (empty_stim\<lparr>date_stimulated := Some ''2015-06-09'',
       stimulated_formation := Some ''Three Forks Second Bench'',
       top_depth := Some ''11185'', bottom_depth := Some ''20754'',
       stimulation_stages := Some ''50'', volume := Some ''126978'',
       volume_units := Some ''Barrels''\<rparr>) \<and>
   parse_stimulation_data
     ''Date Stimulated\<newline>06/09/2015 Three Forks Second Bench 11185 20754 50 I 126978 Barrels\<newline>Date Stimulated\<newline>07/15/2016 Bakken 9000 9500 30 I 5000 Gallons'' =
     Inr (empty_stim\<lparr>date_stimulated := Some ''2016-07-15'',
       stimulated_formation := Some ''Bakken'',
       top_depth := Some ''9000'', bottom_depth := Some ''9500'',
       stimulation_stages := Some ''30'', volume := Some ''5000'',
       volume_units := Some ''Gallons''\<rparr>)"
proof -
  let ?l1 = "''06/09/2015 Three Forks Second Bench 11185 20754 50 I 126978 Barrels''"
  let ?l2 = "''07/15/2016 Bakken 9000 9500 30 I 5000 Gallons''"
  have h1: "splitlines ''Date Stimulated\<newline>06/09/2015 Three Forks Second Bench 11185 20754 50 I 126978 Barrels'' =
      [''Date Stimulated'', ?l1]"
    by (simp add: splitlines_def cls)
  have h2: "splitlines ''Date Stimulated\<newline>06/09/2015 Three Forks Second Bench 11185 20754 50 I 126978 Barrels\<newline>Date Stimulated\<newline>07/15/2016 Bakken 9000 9500 30 I 5000 Gallons'' =
      [''Date Stimulated'', ?l1, ''Date Stimulated'', ?l2]"
    by (simp add: splitlines_def cls)
  have s: "strip ''Date Stimulated'' = ''Date Stimulated''" "strip ?l1 = ?l1" "strip ?l2 = ?l2"
    by (simp_all add: strip_def cls)
  have c: "contains ''Date Stimulated'' ''Date Stimulated''"
    "\<not> contains ''Type Treatment'' ''Date Stimulated''"
    "\<not> contains ''Details'' ''Date Stimulated''"
    "\<not> contains ''Date Stimulated'' ?l1" "\<not> contains ''Type Treatment'' ?l1"
    "\<not> contains ''Details'' ?l1"
    "\<not> contains ''Date Stimulated'' ?l2" "\<not> contains ''Type Treatment'' ?l2"
    "\<not> contains ''Details'' ?l2"
    by simp_all
  have 1: "run [''Date Stimulated'', ?l1] empty_stim =
      empty_stim\<lparr>date_stimulated := Some ''2015-06-09'',
       stimulated_formation := Some ''Three Forks Second Bench'',
       top_depth := Some ''11185'', bottom_depth := Some ''20754'',
       stimulation_stages := Some ''50'', volume := Some ''126978'',
       volume_units := Some ''Barrels''\<rparr>"
    by (simp add: s c line_fields_def date_fields_example)
  have 2: "run [''Date Stimulated'', ?l1, ''Date Stimulated'', ?l2] empty_stim =
      empty_stim\<lparr>date_stimulated := Some ''2016-07-15'',
       stimulated_formation := Some ''Bakken'',
       top_depth := Some ''9000'', bottom_depth := Some ''9500'',
       stimulation_stages := Some ''30'', volume := Some ''5000'',
       volume_units := Some ''Gallons''\<rparr>"
    by (simp add: s c line_fields_def date_fields_example date_fields_second_example)
  show ?thesis unfolding parse_stimulation_data_run h1 h2 1 2 by simp
qed

subsection \<open>The main loop\<close>

lemma normalize_date_nonempty: "normalize_date m \<noteq> Some []"
  by (simp add: normalize_date_def strftime_def pad2_def split: sum.split)

lemma date_nonempty_date_fields:
  "date_stimulated d \<noteq> Some [] \<Longrightarrow> date_stimulated (date_fields nl d) \<noteq> Some []"
  by (simp add: date_fields_def normalize_date_nonempty split: option.split)

lemma date_treatment_fields: "date_stimulated (treatment_fields nl d) = date_stimulated d"
  by (simp add: treatment_fields_def split: option.split)

lemma date_nonempty_line_fields:
  "date_stimulated d \<noteq> Some [] \<Longrightarrow> date_stimulated (line_fields line rest d) \<noteq> Some []"
  by (simp add: line_fields_def Let_def date_treatment_fields date_nonempty_date_fields
      split: list.split)

lemma date_details_upd: "date_stimulated (details_upd rest d) = date_stimulated d"
  by (simp add: details_upd_def)

lemma date_nonempty_run:
  "date_stimulated d \<noteq> Some [] \<Longrightarrow> date_stimulated (run ls d) \<noteq> Some []"
  by (induction ls arbitrary: d) (simp_all add: date_details_upd date_nonempty_line_fields)

lemma truthy_date:
  assumes "parse_stimulation_data text = Inr s"
  shows "truthy (date_stimulated s) \<longleftrightarrow> date_stimulated s \<noteq> None"
proof -
  from assms have "s = run (splitlines text) empty_stim" by (simp add: parse_stimulation_data_run)
  then have "date_stimulated s \<noteq> Some []"
    using date_nonempty_run [of empty_stim "splitlines text"] by (simp add: empty_stim_def)
  then show ?thesis by (cases "date_stimulated s") (simp_all add: truthy_def)
qed

text \<open>
  Claim C4, as amended. For every document the well record is forwarded, and first; the
  stimulation record is forwarded after it, with the identifier of the well record, if
  and only if its \<open>date_stimulated\<close> is set or its \<open>stimulated_formation\<close> is set to a
  text that is not empty.
\<close>

theorem stimulation_forwarded_iff:
  "\<exists>w s. parse_well_info text = Inr w \<and> parse_stimulation_data text = Inr s \<and>
     process_text well_info_id text db =
       (if date_stimulated s \<noteq> None \<or>
           (stimulated_formation s \<noteq> None \<and> stimulated_formation s \<noteq> Some [])
        then (db @ [Insert_well_info w, Insert_stimulation_data s well_info_id], None)
        else (db @ [Insert_well_info w], None))"
proof -
  from parse_well_info_total obtain n where
    w: "parse_well_info text = Inr (well_fields (drop n text))" by blast
  have s: "parse_stimulation_data text = Inr (run (splitlines text) empty_stim)"
    by (rule parse_stimulation_data_run)
  let ?s = "run (splitlines text) empty_stim"
  have "truthy (stimulated_formation ?s) \<longleftrightarrow>
      stimulated_formation ?s \<noteq> None \<and> stimulated_formation ?s \<noteq> Some []"
    by (cases "stimulated_formation ?s") (simp_all add: truthy_def)
  with truthy_date [OF s] w s show ?thesis
    by (simp add: process_text_def Let_def)
qed

text \<open>
  Claim C4, witness: the two-line document of claim C1 has no colon, so its well record
  is empty; its stimulation record has a date and is forwarded after the well record.
\<close>

theorem stimulation_forwarded_iff_witness:
  "process_text 7
     ''Date Stimulated\<newline>06/09/2015 Three Forks Second Bench 11185 20754 50 I 126978 Barrels'' [] =
     ([Insert_well_info empty_well,
       Insert_stimulation_data
         (empty_stim\<lparr>date_stimulated := Some ''2015-06-09'',
            stimulated_formation := Some ''Three Forks Second Bench'',
            top_depth := Some ''11185'', bottom_depth := Some ''20754'',
            stimulation_stages := Some ''50'', volume := Some ''126978'',
            volume_units := Some ''Barrels''\<rparr>) 7], None)"
proof -
  let ?l1 = "''06/09/2015 Three Forks Second Bench 11185 20754 50 I 126978 Barrels''"
  let ?doc = "''Date Stimulated\<newline>06/09/2015 Three Forks Second Bench 11185 20754 50 I 126978 Barrels''"
  have h1: "splitlines ?doc = [''Date Stimulated'', ?l1]"
    by (simp add: splitlines_def cls)
  have s: "strip ''Date Stimulated'' = ''Date Stimulated''" "strip ?l1 = ?l1"
    by (simp_all add: strip_def cls)
  have c: "contains ''Date Stimulated'' ''Date Stimulated''"
    "\<not> contains ''Type Treatment'' ''Date Stimulated''"
    "\<not> contains ''Details'' ''Date Stimulated''"
    "\<not> contains ''Date Stimulated'' ?l1" "\<not> contains ''Type Treatment'' ?l1"
    "\<not> contains ''Details'' ?l1"
    by simp_all
  have 1: "run [''Date Stimulated'', ?l1] empty_stim =
      empty_stim\<lparr>date_stimulated := Some ''2015-06-09'',
       stimulated_formation := Some ''Three Forks Second Bench'',
       top_depth := Some ''11185'', bottom_depth := Some ''20754'',
       stimulation_stages := Some ''50'', volume := Some ''126978'',
       volume_units := Some ''Barrels''\<rparr>"
    by (simp add: s c line_fields_def date_fields_example)
  have stim: "parse_stimulation_data ?doc =
      Inr (empty_stim\<lparr>date_stimulated := Some ''2015-06-09'',
       stimulated_formation := Some ''Three Forks Second Bench'',
       top_depth := Some ''11185'', bottom_depth := Some ''20754'',
       stimulation_stages := Some ''50'', volume := Some ''126978'',
       volume_units := Some ''Barrels''\<rparr>)"
    by (simp only: parse_stimulation_data_run h1 1)
  have well: "parse_well_info ?doc = Inr empty_well"
    by (rule parse_well_info_no_colon) simp
  from stimulation_forwarded_iff [of ?doc 7 "[]"] show ?thesis
    by (simp add: stim well)
qed

lemma date_line_blank_example:
  "\<exists>g. re_match False date_line_pattern ''13/40/2015  1 2 3 I 4 B'' = Some g \<and>
       g 1 = Some ''13/40/2015'' \<and> g 2 = Some [] \<and> g 3 = Some ''1'' \<and>
       g 4 = Some ''2'' \<and> g 5 = Some ''3'' \<and> g 6 = Some ''4'' \<and> g 7 = Some ''B''"
  by (simp add: re_match_def date_line_pattern_def no_groups_def chr_eq_def cls)

lemma normalize_date_invalid_example:
  "g 1 = Some ''13/40/2015'' \<Longrightarrow> normalize_date g = None"
  by (simp add: normalize_date_def group_strip_def bind_def date_eval cls)

lemma date_fields_blank_example:
  "date_fields ''13/40/2015  1 2 3 I 4 B'' d =
     d\<lparr>date_stimulated := None, stimulated_formation := Some [],
       top_depth := Some ''1'', bottom_depth := Some ''2'',
       stimulation_stages := Some ''3'', volume := Some ''4'',
       volume_units := Some ''B''\<rparr>"
proof -
  from date_line_blank_example obtain g where
    "re_match False date_line_pattern ''13/40/2015  1 2 3 I 4 B'' = Some g"
    "g 1 = Some ''13/40/2015''" "g 2 = Some []" "g 3 = Some ''1''"
    "g 4 = Some ''2''" "g 5 = Some ''3''" "g 6 = Some ''4''" "g 7 = Some ''B''"
    by blast
  then show ?thesis
    by (simp add: date_fields_def normalize_date_invalid_example strip_def cls)
qed

text \<open>
  Claim C4, counterexample to the claim as stated: the data line has an impossible date
  and two blanks where the formation name should be. The pattern matches with an empty
  formation, so \<open>stimulated_formation\<close> is set, to the empty text, and the date is unset.
  The stimulation record is not forwarded: the test in the main loop is the truth value
  of the two fields, and the empty text is false.
\<close>

theorem stimulation_not_forwarded_counterexample:
  "parse_stimulation_data ''Date Stimulated\<newline>13/40/2015  1 2 3 I 4 B'' =
     Inr (empty_stim\<lparr>date_stimulated := None, stimulated_formation := Some [],
       top_depth := Some ''1'', bottom_depth := Some ''2'',
       stimulation_stages := Some ''3'', volume := Some ''4'',
       volume_units := Some ''B''\<rparr>) \<and>
   stimulated_formation (empty_stim\<lparr>date_stimulated := None, stimulated_formation := Some [],
       top_depth := Some ''1'', bottom_depth := Some ''2'',
       stimulation_stages := Some ''3'', volume := Some ''4'',
       volume_units := Some ''B''\<rparr>) = Some [] \<and>
   process_text 7 ''Date Stimulated\<newline>13/40/2015  1 2 3 I 4 B'' [] =
     ([Insert_well_info empty_well], None)"
proof -
  let ?l1 = "''13/40/2015  1 2 3 I 4 B''"
  let ?doc = "''Date Stimulated\<newline>13/40/2015  1 2 3 I 4 B''"
  have h1: "splitlines ?doc = [''Date Stimulated'', ?l1]"
    by (simp add: splitlines_def cls)
  have s: "strip ''Date Stimulated'' = ''Date Stimulated''" "strip ?l1 = ?l1"
    by (simp_all add: strip_def cls)
  have c: "contains ''Date Stimulated'' ''Date Stimulated''"
    "\<not> contains ''Type Treatment'' ''Date Stimulated''"
    "\<not> contains ''Details'' ''Date Stimulated''"
    "\<not> contains ''Date Stimulated'' ?l1" "\<not> contains ''Type Treatment'' ?l1"
    "\<not> contains ''Details'' ?l1"
    by simp_all
  have 1: "run [''Date Stimulated'', ?l1] empty_stim =
      empty_stim\<lparr>date_stimulated := None, stimulated_formation := Some [],
       top_depth := Some ''1'', bottom_depth := Some ''2'',
       stimulation_stages := Some ''3'', volume := Some ''4'',
       volume_units := Some ''B''\<rparr>"
    by (simp add: s c line_fields_def date_fields_blank_example)
  have stim: "parse_stimulation_data ?doc =
      Inr (empty_stim\<lparr>date_stimulated := None, stimulated_formation := Some [],
       top_depth := Some ''1'', bottom_depth := Some ''2'',
       stimulation_stages := Some ''3'', volume := Some ''4'',
       volume_units := Some ''B''\<rparr>)"
    by (simp only: parse_stimulation_data_run h1 1)
  have well: "parse_well_info ?doc = Inr empty_well"
    by (rule parse_well_info_no_colon) simp
  have "process_text 7 ?doc [] = ([Insert_well_info empty_well], None)"
    by (simp add: process_text_def stim well truthy_def)
  with stim show ?thesis by simp
qed

subsection \<open>Date normalisation\<close>

lemma digit_cases:
  assumes "is_digit a"
  obtains "a = CHR ''0''" | "a = CHR ''1''" | "a = CHR ''2''" | "a = CHR ''3''"
    | "a = CHR ''4''" | "a = CHR ''5''" | "a = CHR ''6''" | "a = CHR ''7''"
    | "a = CHR ''8''" | "a = CHR ''9''"
  using assms unfolding is_digit_def by auto



lemma digit_chr_val: "is_digit a \<Longrightarrow> digit_chr (digit_val a) = a"
  by (erule digit_cases) (simp_all add: digit_val_def digit_chr_def)


























end
